theory Spec2Isabelle
  imports Main "HOL-Library.Char_ord" "HOL-Library.List_Lexorder"
begin

section \<open>Strings\<close>

text \<open>
  The tools are TypeScript; their strings are sequences of UTF-16 code units. A
  \<^typ>\<open>char\<close> stands for one code unit below 256, which covers every character the
  regular expressions of the tools name explicitly.
\<close>

definition isWhitespace :: "char \<Rightarrow> bool" where
  \<comment> \<open>the class \<open>\s\<close> of a JavaScript regular expression, on code units below 256\<close>
  "isWhitespace c = (c \<in> set [CHR '' '', CHR 0x09, CHR 0x0A, CHR 0x0B, CHR 0x0C, CHR 0x0D, CHR 0xA0])"

definition upperCaseChars :: string where
  \<comment> \<open>the code units below 256 that \<open>toLowerCase\<close> changes: \<open>A\<close> to \<open>Z\<close>, and the
      capital letters of Latin-1 from 0xC0 to 0xDE, 0xD7 excepted\<close>
  "upperCaseChars =
     ''ABCDEFGHIJKLMNOPQRSTUVWXYZ'' @
       [CHR 0xC0, CHR 0xC1, CHR 0xC2, CHR 0xC3, CHR 0xC4, CHR 0xC5,
        CHR 0xC6, CHR 0xC7, CHR 0xC8, CHR 0xC9, CHR 0xCA, CHR 0xCB,
        CHR 0xCC, CHR 0xCD, CHR 0xCE, CHR 0xCF, CHR 0xD0, CHR 0xD1,
        CHR 0xD2, CHR 0xD3, CHR 0xD4, CHR 0xD5, CHR 0xD6, CHR 0xD8,
        CHR 0xD9, CHR 0xDA, CHR 0xDB, CHR 0xDC, CHR 0xDD, CHR 0xDE]"

definition lowerCaseChars :: string where
  \<comment> \<open>their lower-case forms, 32 code units on, in the same order\<close>
  "lowerCaseChars =
     ''abcdefghijklmnopqrstuvwxyz'' @
       [CHR 0xE0, CHR 0xE1, CHR 0xE2, CHR 0xE3, CHR 0xE4, CHR 0xE5,
        CHR 0xE6, CHR 0xE7, CHR 0xE8, CHR 0xE9, CHR 0xEA, CHR 0xEB,
        CHR 0xEC, CHR 0xED, CHR 0xEE, CHR 0xEF, CHR 0xF0, CHR 0xF1,
        CHR 0xF2, CHR 0xF3, CHR 0xF4, CHR 0xF5, CHR 0xF6, CHR 0xF8,
        CHR 0xF9, CHR 0xFA, CHR 0xFB, CHR 0xFC, CHR 0xFD, CHR 0xFE]"

definition toLowerChar :: "char \<Rightarrow> char" where
  \<comment> \<open>\<open>String.prototype.toLowerCase\<close> on one code unit below 256\<close>
  "toLowerChar c =
     (case map_of (zip upperCaseChars lowerCaseChars) c of Some l \<Rightarrow> l | None \<Rightarrow> c)"

definition toLowerCase :: "string \<Rightarrow> string" where
  "toLowerCase s = map toLowerChar s"

fun stripPrefix :: "string \<Rightarrow> string \<Rightarrow> string option" where
  "stripPrefix [] s = Some s"
| "stripPrefix (p # ps) [] = None"
| "stripPrefix (p # ps) (c # cs) = (if p = c then stripPrefix ps cs else None)"

fun splitOn :: "char \<Rightarrow> string \<Rightarrow> string list" where
  \<comment> \<open>\<open>s.split(sep)\<close> for a one-character separator: the empty string gives one empty part\<close>
  "splitOn sep [] = [[]]"
| "splitOn sep (c # cs) =
     (if c = sep then [] # splitOn sep cs
      else (case splitOn sep cs of [] \<Rightarrow> [[c]] | p # ps \<Rightarrow> (c # p) # ps))"

fun joinWith :: "string \<Rightarrow> string list \<Rightarrow> string" where
  \<comment> \<open>\<open>parts.join(sep)\<close>\<close>
  "joinWith sep [] = []"
| "joinWith sep [p] = p"
| "joinWith sep (p # q # ps) = p @ sep @ joinWith sep (q # ps)"

section \<open>Wiki-link identifiers\<close>

definition endsWithMd :: "string \<Rightarrow> bool" where
  \<comment> \<open>the test \<open>/\.md$/i\<close>\<close>
  "endsWithMd s =
     (3 \<le> length s \<and> toLowerCase (drop (length s - 3) s) = ''.md'')"

definition stripMd :: "string \<Rightarrow> string" where
  \<comment> \<open>\<open>.replace(/\.md$/i, '')\<close>\<close>
  "stripMd s = (if endsWithMd s then take (length s - 3) s else s)"

function collapseWhitespace :: "string \<Rightarrow> string" where
  \<comment> \<open>\<open>part.replace(/\s+/g, '_')\<close>: each maximal run of whitespace becomes one underscore\<close>
  "collapseWhitespace [] = []"
| "collapseWhitespace (c # cs) =
     (if isWhitespace c then CHR ''_'' # collapseWhitespace (dropWhile isWhitespace cs)
      else c # collapseWhitespace cs)"
  by pat_completeness auto
termination
  by (relation "measure length") (auto simp: length_dropWhile_le less_Suc_eq_le)

definition pathToWikiLink :: "string \<Rightarrow> string" where
  "pathToWikiLink filePath =
     joinWith ''/'' (map collapseWhitespace (splitOn CHR ''/'' (stripMd filePath)))"

section \<open>Rewriting link references\<close>

text \<open>
  Both link rewriters build a regular expression from the old identifier with
  \<open>new RegExp\<close> and no escaping, and use the new identifier inside a replacement
  template. The definitions below give the behaviour of these expressions for an old
  identifier that is free of regular-expression metacharacters (\<open>literalPattern\<close>: the
  expression then matches the identifier letter by letter) and a new identifier free of
  the dollar sign (\<open>literalReplacement\<close>: the template then inserts it as it is). Every
  theorem about rewriting carries these two conditions.
\<close>

definition literalPattern :: "string \<Rightarrow> bool" where
  "literalPattern s = (\<forall>c \<in> set s. c \<notin> set (CHR 0x5C # ''^$.*+?()[]{}|''))"

definition literalReplacement :: "string \<Rightarrow> bool" where
  "literalReplacement s = (CHR ''$'' \<notin> set s)"

definition notBracket :: "char \<Rightarrow> bool" where
  \<comment> \<open>the class \<open>[^\]]\<close>\<close>
  "notBracket c = (c \<noteq> CHR 0x5D)"

definition matchNoteLink :: "string \<Rightarrow> string \<Rightarrow> (string \<times> string) option" where
  \<comment> \<open>A match of \<open>\[\[oldLink(\|[^\]]*)?\]\]\<close> at the start of \<open>s\<close>: the text of
      group 1 (empty when the group took no part) and the rest of \<open>s\<close> after the match.
      The optional group is tried first, with the longest run of non-brackets (a shorter
      run is followed by a non-bracket, where \<open>\]\<close> cannot match), then skipped.\<close>
  "matchNoteLink oldLink s =
     (case stripPrefix (''[['' @ oldLink) s of
        None \<Rightarrow> None
      | Some r \<Rightarrow>
          (let withGroup =
                 (case r of
                    [] \<Rightarrow> None
                  | c # r1 \<Rightarrow>
                      if c = CHR ''|'' then
                        (case stripPrefix '']]'' (dropWhile notBracket r1) of
                           None \<Rightarrow> None
                         | Some rest \<Rightarrow> Some (c # takeWhile notBracket r1, rest))
                      else None)
           in case withGroup of
                Some m \<Rightarrow> Some m
              | None \<Rightarrow>
                  (case stripPrefix '']]'' r of
                     None \<Rightarrow> None
                   | Some rest \<Rightarrow> Some ([], rest))))"

function replaceNoteLinks :: "string \<Rightarrow> string \<Rightarrow> string \<Rightarrow> string" where
  \<comment> \<open>\<open>content.replace(new RegExp(`\\[\\[${oldLink}(\\|[^\\]]*)?\\]\\]`, 'g'), `[[${newLink}$1]]`)\<close>
      of NoteMoveAndRenameTool: leftmost matches, left to right, each search resuming
      after the previous match\<close>
  "replaceNoteLinks oldLink newLink [] = []"
| "replaceNoteLinks oldLink newLink (c # cs) =
     (case matchNoteLink oldLink (c # cs) of
        Some (group1, rest) \<Rightarrow>
          ''[['' @ newLink @ group1 @ '']]'' @ replaceNoteLinks oldLink newLink rest
      | None \<Rightarrow> c # replaceNoteLinks oldLink newLink cs)"
  by pat_completeness auto
termination
proof -
  have sp: "stripPrefix p s = Some r \<Longrightarrow> length s = length p + length r" for p s r
    by (induction p s rule: stripPrefix.induct) (auto split: if_splits)
  have key: "length rest < Suc (length cs)"
    if m: "matchNoteLink oldLink (c # cs) = Some (group1, rest)"
    for oldLink c cs group1 rest
  proof -
    obtain r where r: "stripPrefix (''[['' @ oldLink) (c # cs) = Some r"
      using m by (cases "stripPrefix (''[['' @ oldLink) (c # cs)") (simp_all add: matchNoteLink_def)
    have l1: "length r < length (c # cs)"
      using sp [OF r] by simp
    have "length rest \<le> length r"
    proof (cases "\<exists>r1 rest'. r = CHR ''|'' # r1 \<and> stripPrefix '']]'' (dropWhile notBracket r1) = Some rest'")
      case True
      then obtain r1 rest' where h: "r = CHR ''|'' # r1" "stripPrefix '']]'' (dropWhile notBracket r1) = Some rest'"
        by blast
      then have "rest = rest'"
        using m r by (simp add: matchNoteLink_def)
      moreover have "length rest' \<le> length (dropWhile notBracket r1)"
        using sp [OF h(2)] by simp
      moreover have "length (dropWhile notBracket r1) \<le> length r1"
        by (rule length_dropWhile_le)
      ultimately show ?thesis using h(1) by simp
    next
      case False
      then have "(case r of [] \<Rightarrow> None | c # r1 \<Rightarrow>
                      if c = CHR ''|'' then
                        (case stripPrefix '']]'' (dropWhile notBracket r1) of
                           None \<Rightarrow> None
                         | Some rest \<Rightarrow> Some (c # takeWhile notBracket r1, rest))
                      else None) = None"
        by (cases r) (auto split: option.splits)
      then have "stripPrefix '']]'' r = Some rest"
        using m r by (cases "stripPrefix '']]'' r") (simp_all add: matchNoteLink_def)
      then show ?thesis using sp by fastforce
    qed
    with l1 show ?thesis by simp
  qed
  show ?thesis
    by (relation "measure (\<lambda>(oldLink, newLink, s). length s)") (auto dest: key)
qed

definition matchFolderLink :: "string \<Rightarrow> string \<Rightarrow> (string \<times> string) option" where
  \<comment> \<open>A match of \<open>\[\[oldPathPattern[^\]]*\]\]\<close> at the start of \<open>s\<close>: the matched text
      and the rest of \<open>s\<close> after it.\<close>
  "matchFolderLink oldPathPattern s =
     (case stripPrefix (''[['' @ oldPathPattern) s of
        None \<Rightarrow> None
      | Some r \<Rightarrow>
          (case stripPrefix '']]'' (dropWhile notBracket r) of
             None \<Rightarrow> None
           | Some rest \<Rightarrow>
               Some (''[['' @ oldPathPattern @ takeWhile notBracket r @ '']]'', rest)))"

fun replaceFirst :: "string \<Rightarrow> string \<Rightarrow> string \<Rightarrow> string" where
  \<comment> \<open>\<open>s.replace(pattern, replacement)\<close> with a string pattern: the first occurrence only\<close>
  "replaceFirst pat rep [] = (if pat = [] then rep else [])"
| "replaceFirst pat rep (c # cs) =
     (case stripPrefix pat (c # cs) of
        Some r \<Rightarrow> rep @ r
      | None \<Rightarrow> c # replaceFirst pat rep cs)"

function replaceFolderLinks :: "string \<Rightarrow> string \<Rightarrow> string \<Rightarrow> string" where
  \<comment> \<open>\<open>content.replace(new RegExp(`\\[\\[${oldPathPattern}[^\\]]*\\]\\]`, 'g'),
      (match) => match.replace(oldPathPattern, newPathPattern))\<close> of FolderOperationTool\<close>
  "replaceFolderLinks oldPathPattern newPathPattern [] = []"
| "replaceFolderLinks oldPathPattern newPathPattern (c # cs) =
     (case matchFolderLink oldPathPattern (c # cs) of
        Some (matched, rest) \<Rightarrow>
          replaceFirst oldPathPattern newPathPattern matched
            @ replaceFolderLinks oldPathPattern newPathPattern rest
      | None \<Rightarrow> c # replaceFolderLinks oldPathPattern newPathPattern cs)"
  by pat_completeness auto
termination
proof -
  have sp: "stripPrefix p s = Some r \<Longrightarrow> length s = length p + length r" for p s r
    by (induction p s rule: stripPrefix.induct) (auto split: if_splits)
  have key: "length rest < Suc (length cs)"
    if m: "matchFolderLink oldPathPattern (c # cs) = Some (matched, rest)"
    for oldPathPattern c cs matched rest
  proof -
    obtain r where r: "stripPrefix (''[['' @ oldPathPattern) (c # cs) = Some r"
      using m
      by (cases "stripPrefix (''[['' @ oldPathPattern) (c # cs)")
         (simp_all add: matchFolderLink_def)
    have l1: "length r < length (c # cs)"
      using sp [OF r] by simp
    have "stripPrefix '']]'' (dropWhile notBracket r) = Some rest"
      using m r
      by (cases "stripPrefix '']]'' (dropWhile notBracket r)")
         (simp_all add: matchFolderLink_def)
    then have "length rest \<le> length (dropWhile notBracket r)"
      using sp by fastforce
    then have "length rest \<le> length r"
      by (rule order_trans [OF _ length_dropWhile_le])
    with l1 show ?thesis by simp
  qed
  show ?thesis
    by (relation "measure (\<lambda>(oldPathPattern, newPathPattern, s). length s)")
       (auto dest: key)
qed

section \<open>Link references in a body\<close>

text \<open>
  A body seen as the specification sees it: stretches of plain text and link references
  \<open>[[target]]\<close> or \<open>[[target|alias]]\<close>. \<open>render\<close> gives the text of the body;
  \<open>retarget\<close> and \<open>retargetPrefix\<close> say what a rewriter does to one segment. They
  are used to state properties of the rewriters, not to define them.

  A body is read without ambiguity as a list of segments when every \<open>[[\<close> in it opens a
  reference: the plain text has no \<open>[[\<close> and does not end with \<open>[\<close>, a target has no
  bracket and no bar, an alias has no \<open>]\<close> and no \<open>[[\<close>. This is \<open>wellFormedSegment\<close>.
  Plain text may hold single brackets, as in \<open>see [1]\<close> or \<open>[text](url)\<close>.
\<close>

datatype segment = Text string | Link string "string option"

fun renderSegment :: "segment \<Rightarrow> string" where
  "renderSegment (Text t) = t"
| "renderSegment (Link target None) = ''[['' @ target @ '']]''"
| "renderSegment (Link target (Some alias)) = ''[['' @ target @ ''|'' @ alias @ '']]''"

definition render :: "segment list \<Rightarrow> string" where
  "render segs = concat (map renderSegment segs)"

fun hasOpening :: "string \<Rightarrow> bool" where
  \<comment> \<open>the text contains \<open>[[\<close>\<close>
  "hasOpening (a # b # cs) = ((a = CHR ''['' \<and> b = CHR ''['') \<or> hasOpening (b # cs))"
| "hasOpening [a] = False"
| "hasOpening [] = False"

fun wellFormedSegment :: "segment \<Rightarrow> bool" where
  "wellFormedSegment (Text t) = (\<not> hasOpening t \<and> (t = [] \<or> last t \<noteq> CHR ''[''))"
| "wellFormedSegment (Link target alias) =
     (set target \<inter> set ''[]|'' = {} \<and>
      (case alias of None \<Rightarrow> True | Some a \<Rightarrow> CHR '']'' \<notin> set a \<and> \<not> hasOpening a))"

fun retarget :: "string \<Rightarrow> string \<Rightarrow> segment \<Rightarrow> segment" where
  "retarget old new (Text t) = Text t"
| "retarget old new (Link target alias) =
     (if target = old then Link new alias else Link target alias)"

fun retargetPrefix :: "string \<Rightarrow> string \<Rightarrow> segment \<Rightarrow> segment" where
  "retargetPrefix old new (Text t) = Text t"
| "retargetPrefix old new (Link target alias) =
     (case stripPrefix old target of
        Some rest \<Rightarrow> Link (new @ rest) alias
      | None \<Rightarrow> Link target alias)"

section \<open>Paths\<close>

text \<open>
  \<open>path.join\<close> and \<open>path.dirname\<close> are Node's, in the POSIX flavour. \<open>path.join\<close>
  glues its non-empty arguments with a slash and normalizes the result: empty and
  \<open>.\<close> segments are dropped, a \<open>..\<close> segment removes the segment before it, and
  at the front of a relative path, where nothing is left to remove, it stays.
\<close>

definition normalizeStep :: "bool \<Rightarrow> string list \<Rightarrow> string \<Rightarrow> string list" where
  "normalizeStep allowAboveRoot res seg =
     (if seg = [] \<or> seg = ''.'' then res
      else if seg = ''..'' then
        (if res \<noteq> [] \<and> last res \<noteq> ''..'' then butlast res
         else if allowAboveRoot then res @ [''..'']
         else res)
      else res @ [seg])"

definition normalizeString :: "string \<Rightarrow> bool \<Rightarrow> string" where
  "normalizeString path allowAboveRoot =
     joinWith ''/'' (foldl (normalizeStep allowAboveRoot) [] (splitOn CHR ''/'' path))"

definition normalize :: "string \<Rightarrow> string" where
  "normalize path =
     (if path = [] then ''.''
      else
        let isAbsolute = (hd path = CHR ''/'');
            trailingSeparator = (last path = CHR ''/'');
            p = normalizeString path (\<not> isAbsolute)
        in if p = [] then
             (if isAbsolute then ''/'' else if trailingSeparator then ''./'' else ''.'')
           else (if isAbsolute then ''/'' else []) @ p @ (if trailingSeparator then ''/'' else []))"

definition path_join :: "string list \<Rightarrow> string" where
  "path_join args =
     (let parts = filter (\<lambda>a. a \<noteq> []) args
      in if parts = [] then ''.'' else normalize (joinWith ''/'' parts))"

definition dirname :: "string \<Rightarrow> string" where
  \<comment> \<open>scanning backwards from the end, never looking at the first character: trailing
      slashes, then the last name, then the slash before it, where the result ends\<close>
  "dirname path =
     (if path = [] then ''.''
      else
        let hasRoot = (hd path = CHR ''/'');
            afterName = dropWhile (\<lambda>c. c \<noteq> CHR ''/'')
                          (dropWhile (\<lambda>c. c = CHR ''/'') (rev (tl path)))
        in case afterName of
             [] \<Rightarrow> (if hasRoot then ''/'' else ''.'')
           | slash # front \<Rightarrow>
               (if hasRoot \<and> front = [] then ''//'' else hd path # rev front))"

definition plainSegment :: "string \<Rightarrow> bool" where
  \<comment> \<open>a name: not empty, not \<open>.\<close>, not \<open>..\<close>, and without a slash\<close>
  "plainSegment s = (s \<noteq> [] \<and> s \<noteq> ''.'' \<and> s \<noteq> ''..'' \<and> CHR ''/'' \<notin> set s)"

definition isInside :: "string \<Rightarrow> string \<Rightarrow> bool" where
  \<comment> \<open>\<open>p\<close> is the directory \<open>root\<close> or lies below it\<close>
  "isInside root p = (p = root \<or> stripPrefix (root @ ''/'') p \<noteq> None)"

section \<open>Errors, the file system and the clock\<close>

datatype error =
    ENOENT string
  | EIO string
  | TypeError
  | Message string
  | Wrapped string error

text \<open>
  \<open>ENOENT p\<close> is the error of \<open>fs\<close> with code \<open>ENOENT\<close> at path \<open>p\<close>, \<open>EIO p\<close> any
  other error of \<open>fs\<close> at \<open>p\<close>, \<open>TypeError\<close> the run-time type error of JavaScript,
  \<open>Message m\<close> the value \<open>new Error(m)\<close>, and \<open>Wrapped m e\<close> the value
  \<open>new Error(`m: ${e}`)\<close> that the tools throw from their \<open>catch\<close> blocks.
\<close>

datatype access =
    ReadFile string
  | WriteFile string
  | Unlink string
  | Mkdir string
  | Access string
  | Readdir string
  | Rm string
  | Rename string string


section \<open>Frontmatter\<close>

text \<open>
  The values found in frontmatter: a key that is absent reads as \<open>Undefined\<close>; \<open>Obj\<close>
  stands for any mapping or other object that is not an array. An array holds strings,
  as the type \<open>string[]\<close> of \<open>tags\<close> has it. A frontmatter is the list of its keys
  and values in the order of the object's properties.
\<close>

datatype fmval = Undefined | Null | Str string | Arr "string list" | Num int | Bool bool | Obj

type_synonym frontmatter = "(string \<times> fmval) list"

definition getKey :: "frontmatter \<Rightarrow> string \<Rightarrow> fmval" where
  "getKey fm k = (case map_of fm k of None \<Rightarrow> Undefined | Some v \<Rightarrow> v)"

fun setKey :: "string \<Rightarrow> fmval \<Rightarrow> frontmatter \<Rightarrow> frontmatter" where
  \<comment> \<open>a property is assigned in place when the object has it and added last otherwise\<close>
  "setKey k v [] = [(k, v)]"
| "setKey k v ((k', v') # fm) =
     (if k' = k then (k, v) # fm else (k', v') # setKey k v fm)"

definition spread :: "frontmatter \<Rightarrow> frontmatter \<Rightarrow> frontmatter" where
  \<comment> \<open>\<open>{...target, ...source}\<close>\<close>
  "spread target source = foldl (\<lambda>acc (k, v). setKey k v acc) target source"

fun truthy :: "fmval \<Rightarrow> bool" where
  "truthy Undefined = False"
| "truthy Null = False"
| "truthy (Str s) = (s \<noteq> [])"
| "truthy (Arr xs) = True"
| "truthy (Num n) = (n \<noteq> 0)"
| "truthy (Bool b) = b"
| "truthy Obj = True"

definition orElse :: "fmval \<Rightarrow> fmval \<Rightarrow> fmval" where
  \<comment> \<open>\<open>a || b\<close>\<close>
  "orElse a b = (if truthy a then a else b)"

definition strOr :: "string option \<Rightarrow> fmval \<Rightarrow> fmval" where
  \<comment> \<open>\<open>s || b\<close> for an optional string parameter \<open>s\<close>\<close>
  "strOr s b = (case s of None \<Rightarrow> b | Some t \<Rightarrow> if t \<noteq> [] then Str t else b)"

text \<open>
  \<open>matter\<close> and \<open>matter.stringify\<close> belong to the package gray-matter, which is not
  part of the repository: the tools are given them as a parameter, and nothing is
  assumed about what they compute.
\<close>

record grayMatter =
  matter :: "string \<Rightarrow> error + frontmatter \<times> string"
  stringify :: "string \<Rightarrow> frontmatter \<Rightarrow> error + string"

subsection \<open>The set of tags\<close>

text \<open>
  A JavaScript \<open>Set\<close> keeps its members in the order of their first insertion;
  \<open>Array.from\<close> reads them in that order.
\<close>

definition setAdd :: "string list \<Rightarrow> string \<Rightarrow> string list" where
  "setAdd s x = (if x \<in> set s then s else s @ [x])"

definition setDelete :: "string list \<Rightarrow> string \<Rightarrow> string list" where
  "setDelete s x = filter (\<lambda>y. y \<noteq> x) s"

definition newSet :: "fmval \<Rightarrow> error + string list" where
  \<comment> \<open>\<open>new Set(v)\<close>: the members of an array, the characters of a string; any other
      value that passes \<open>||\<close> is not iterable\<close>
  "newSet v =
     (case v of
        Arr xs \<Rightarrow> Inr (foldl setAdd [] xs)
      | Str s \<Rightarrow> Inr (foldl setAdd [] (map (\<lambda>c. [c]) s))
      | _ \<Rightarrow> Inl TypeError)"

section \<open>The file system and the clock\<close>

text \<open>
  The world of a tool: the regular files by path, with their text; the calls of \<open>fs\<close>
  that fail for a reason the model does not look into (permissions, a directory in the
  place of a file, a full disk); the calls made so far, in order; the clock, whose
  \<open>k\<close>-th reading \<open>new Date().toISOString()\<close> is \<open>clock w k\<close>, and the number of
  readings taken; and the frontmatter of every note written through
  \<open>matter.stringify\<close>, with its path, in order. Console output is not kept.

  Directories are not part of the world. What \<open>fs.readdir\<close> reports is a parameter of
  the tools that list a directory; the call itself is logged like any other. Whether
  \<open>fs.rename\<close> and \<open>fs.rm\<close> succeed is not read off the files either: a call of
  theirs that fails is in \<open>fails\<close>.
\<close>

record world =
  disk :: "string \<rightharpoonup> string"
  fails :: "access set"
  accesses :: "access list"
  clock :: "nat \<Rightarrow> string"
  ticks :: nat
  serialized :: "(string \<times> frontmatter) list"

type_synonym 'a io = "world \<Rightarrow> (error + 'a) \<times> world"

definition logged :: "access \<Rightarrow> world \<Rightarrow> world" where
  "logged a w = w\<lparr>accesses := accesses w @ [a]\<rparr>"

definition fs_readFile :: "string \<Rightarrow> string io" where
  "fs_readFile p w =
     (if ReadFile p \<in> fails w then (Inl (EIO p), logged (ReadFile p) w)
      else case disk w p of
             None \<Rightarrow> (Inl (ENOENT p), logged (ReadFile p) w)
           | Some text \<Rightarrow> (Inr text, logged (ReadFile p) w))"

definition fs_writeFile :: "string \<Rightarrow> string \<Rightarrow> unit io" where
  \<comment> \<open>creates the file or replaces its text (the default flag \<open>w\<close>)\<close>
  "fs_writeFile p text w =
     (if WriteFile p \<in> fails w then (Inl (EIO p), logged (WriteFile p) w)
      else (Inr (), logged (WriteFile p) (w\<lparr>disk := (disk w)(p \<mapsto> text)\<rparr>)))"

definition fs_unlink :: "string \<Rightarrow> unit io" where
  "fs_unlink p w =
     (if Unlink p \<in> fails w then (Inl (EIO p), logged (Unlink p) w)
      else case disk w p of
             None \<Rightarrow> (Inl (ENOENT p), logged (Unlink p) w)
           | Some text \<Rightarrow> (Inr (), logged (Unlink p) (w\<lparr>disk := (disk w)(p := None)\<rparr>)))"

definition fs_access :: "string \<Rightarrow> unit io" where
  "fs_access p w =
     (if Access p \<in> fails w then (Inl (EIO p), logged (Access p) w)
      else case disk w p of
             None \<Rightarrow> (Inl (ENOENT p), logged (Access p) w)
           | Some text \<Rightarrow> (Inr (), logged (Access p) w))"

definition fs_mkdir :: "string \<Rightarrow> unit io" where
  \<comment> \<open>\<open>fs.mkdir(p, { recursive: true })\<close>: no error when the directory exists\<close>
  "fs_mkdir p w =
     (if Mkdir p \<in> fails w then (Inl (EIO p), logged (Mkdir p) w)
      else (Inr (), logged (Mkdir p) w))"

definition fs_rm :: "string \<Rightarrow> unit io" where
  \<comment> \<open>\<open>fs.rm(p, { recursive: true, force: true })\<close>: what is at \<open>p\<close> and below it is
      gone, and nothing at \<open>p\<close> is no error\<close>
  "fs_rm p w =
     (if Rm p \<in> fails w then (Inl (EIO p), logged (Rm p) w)
      else (Inr (), logged (Rm p)
                      (w\<lparr>disk := (\<lambda>q. if isInside p q then None else disk w q)\<rparr>)))"

definition movedFrom :: "string \<Rightarrow> string \<Rightarrow> string \<Rightarrow> string option" where
  \<comment> \<open>after \<open>src\<close> was renamed to \<open>dst\<close>: where what is now at \<open>q\<close>, which is \<open>dst\<close> or
      lies below it, was before\<close>
  "movedFrom src dst q =
     (if q = dst then Some src
      else case stripPrefix (dst @ ''/'') q of
             Some rest \<Rightarrow> Some (src @ ''/'' @ rest)
           | None \<Rightarrow> None)"

definition fs_rename :: "string \<Rightarrow> string \<Rightarrow> unit io" where
  \<comment> \<open>\<open>fs.rename(src, dst)\<close>: the files at \<open>src\<close> and below it are afterwards at \<open>dst\<close>
      and below it\<close>
  "fs_rename src dst w =
     (if Rename src dst \<in> fails w then (Inl (EIO src), logged (Rename src dst) w)
      else (Inr (), logged (Rename src dst)
                      (w\<lparr>disk := (\<lambda>q. case movedFrom src dst q of
                                          Some p \<Rightarrow> disk w p
                                        | None \<Rightarrow> if isInside src q then None else disk w q)\<rparr>)))"

definition newDate :: "world \<Rightarrow> string \<times> world" where
  \<comment> \<open>\<open>new Date().toISOString()\<close>\<close>
  "newDate w = (clock w (ticks w), w\<lparr>ticks := Suc (ticks w)\<rparr>)"

definition andThen :: "(error + 'a) \<times> world \<Rightarrow> ('a \<Rightarrow> 'b io) \<Rightarrow> (error + 'b) \<times> world" where
  \<comment> \<open>the next statement runs when the one before did not throw\<close>
  "andThen r f = (case r of (Inl e, w) \<Rightarrow> (Inl e, w) | (Inr a, w) \<Rightarrow> f a w)"

definition rethrow :: "(error \<Rightarrow> error) \<Rightarrow> (error + 'a) \<times> world \<Rightarrow> (error + 'a) \<times> world" where
  \<comment> \<open>\<open>try { ... } catch (error) { throw f(error) }\<close>\<close>
  "rethrow f r = (case r of (Inl e, w) \<Rightarrow> (Inl (f e), w) | (Inr a, w) \<Rightarrow> (Inr a, w))"

definition writeNote :: "grayMatter \<Rightarrow> string \<Rightarrow> string \<Rightarrow> frontmatter \<Rightarrow> unit io" where
  \<comment> \<open>\<open>fs.writeFile(p, matter.stringify(body, fm), 'utf-8')\<close>\<close>
  "writeNote gm p body fm w =
     (case stringify gm body fm of
        Inl e \<Rightarrow> (Inl e, w)
      | Inr text \<Rightarrow>
          andThen (fs_writeFile p text w)
            (\<lambda>u w'. (Inr (), w'\<lparr>serialized := serialized w' @ [(p, fm)]\<rparr>)))"

subsection \<open>Listing the notes\<close>

text \<open>
  What \<open>fs.readdir\<close> reports below a directory: for each name, a regular file, a
  directory with its own entries, a directory that cannot be read, or something else.
  \<open>getAllMarkdownFiles\<close> gives the result of the method of that name, which the three
  tools that list the vault share word for word, and \<open>readdirCalls\<close> the calls of
  \<open>fs.readdir\<close> that the method makes, up to the one that fails; \<open>listMarkdownFiles\<close>
  is the method as a step of a tool, with its result and its calls.
\<close>

datatype dirent = FileEntry | OtherEntry | DirEntry "(string \<times> dirent) list" | BrokenDir

fun isDirectory :: "dirent \<Rightarrow> bool" where
  "isDirectory (DirEntry entries) = True"
| "isDirectory BrokenDir = True"
| "isDirectory FileEntry = False"
| "isDirectory OtherEntry = False"

fun isFile :: "dirent \<Rightarrow> bool" where
  "isFile FileEntry = True"
| "isFile e = False"

fun getAllMarkdownFiles :: "string \<Rightarrow> dirent \<Rightarrow> error + string list"
  and collectEntries :: "string \<Rightarrow> (string \<times> dirent) list \<Rightarrow> error + string list" where
  "getAllMarkdownFiles dir (DirEntry entries) = collectEntries dir entries"
| "getAllMarkdownFiles dir BrokenDir = Inl (EIO dir)"
| "getAllMarkdownFiles dir FileEntry = Inl (EIO dir)"
| "getAllMarkdownFiles dir OtherEntry = Inl (EIO dir)"
| "collectEntries dir [] = Inr []"
| "collectEntries dir ((name, entry) # rest) =
     (if isDirectory entry then
        (case getAllMarkdownFiles (path_join [dir, name]) entry of
           Inl e \<Rightarrow> Inl e
         | Inr sub \<Rightarrow>
             (case collectEntries dir rest of
                Inl e \<Rightarrow> Inl e
              | Inr found \<Rightarrow> Inr (sub @ found)))
      else if isFile entry \<and> endsWithMd name then
        (case collectEntries dir rest of
           Inl e \<Rightarrow> Inl e
         | Inr found \<Rightarrow> Inr (path_join [dir, name] # found))
      else collectEntries dir rest)"

fun readdirCalls :: "string \<Rightarrow> dirent \<Rightarrow> access list"
  and readdirCallsIn :: "string \<Rightarrow> (string \<times> dirent) list \<Rightarrow> access list" where
  "readdirCalls dir (DirEntry entries) = Readdir dir # readdirCallsIn dir entries"
| "readdirCalls dir BrokenDir = [Readdir dir]"
| "readdirCalls dir FileEntry = [Readdir dir]"
| "readdirCalls dir OtherEntry = [Readdir dir]"
| "readdirCallsIn dir [] = []"
| "readdirCallsIn dir ((name, entry) # rest) =
     (if isDirectory entry then
        readdirCalls (path_join [dir, name]) entry @
          (case getAllMarkdownFiles (path_join [dir, name]) entry of
             Inl e \<Rightarrow> []
           | Inr sub \<Rightarrow> readdirCallsIn dir rest)
      else readdirCallsIn dir rest)"

definition listMarkdownFiles :: "string \<Rightarrow> dirent \<Rightarrow> string list io" where
  "listMarkdownFiles dir tree w =
     (getAllMarkdownFiles dir tree, w\<lparr>accesses := accesses w @ readdirCalls dir tree\<rparr>)"

section \<open>NoteMoveAndRenameTool and the link rewriters\<close>

fun rewriteFiles :: "(string \<Rightarrow> string) \<Rightarrow> string list \<Rightarrow> unit io" where
  \<comment> \<open>the loop of both \<open>updateLinksInVault\<close> methods, \<open>replace\<close> being the call of
      \<open>content.replace\<close>: a file is written when its text has changed\<close>
  "rewriteFiles replace [] w = (Inr (), w)"
| "rewriteFiles replace (file # rest) w =
     (case fs_readFile file w of
        (Inl e, w1) \<Rightarrow> (Inl e, w1)
      | (Inr content, w1) \<Rightarrow>
          (let updatedContent = replace content
           in if content \<noteq> updatedContent then
                (case fs_writeFile file updatedContent w1 of
                   (Inl e, w2) \<Rightarrow> (Inl e, w2)
                 | (Inr u, w2) \<Rightarrow> rewriteFiles replace rest w2)
              else rewriteFiles replace rest w1))"

definition NoteMoveAndRenameTool_updateLinksInVault ::
  "string \<Rightarrow> dirent \<Rightarrow> string \<Rightarrow> string \<Rightarrow> world \<Rightarrow> world" where
  \<comment> \<open>the \<open>catch\<close> block prints the error and returns\<close>
  "NoteMoveAndRenameTool_updateLinksInVault vaultPath tree oldPath newPath w =
     (case listMarkdownFiles vaultPath tree w of
        (Inl e, w1) \<Rightarrow> w1
      | (Inr allFiles, w1) \<Rightarrow>
          snd (rewriteFiles
                 (replaceNoteLinks (pathToWikiLink oldPath) (pathToWikiLink newPath))
                 allFiles w1))"

definition FolderOperationTool_updateLinksInVault ::
  "string \<Rightarrow> dirent \<Rightarrow> string \<Rightarrow> string \<Rightarrow> world \<Rightarrow> world" where
  "FolderOperationTool_updateLinksInVault vaultPath tree oldPath newPath w =
     (case listMarkdownFiles vaultPath tree w of
        (Inl e, w1) \<Rightarrow> w1
      | (Inr allFiles, w1) \<Rightarrow>
          snd (rewriteFiles
                 (replaceFolderLinks (pathToWikiLink oldPath) (pathToWikiLink newPath))
                 allFiles w1))"

record NoteMoveParams =
  m_sourcePath :: string
  m_destinationPath :: string
  m_newTitle :: "string option"
  m_updateLinks :: "bool option"

record Note =
  n_path :: string
  n_title :: fmval
  n_content :: string
  n_frontmatter :: frontmatter
  n_tags :: fmval
  n_created :: fmval
  n_modified :: fmval

definition NoteMoveAndRenameTool_execute ::
  "grayMatter \<Rightarrow> string \<Rightarrow> dirent \<Rightarrow> NoteMoveParams \<Rightarrow> Note io" where
  \<comment> \<open>\<open>tree\<close> is what \<open>readdir\<close> reports below the vault when the links are updated\<close>
  "NoteMoveAndRenameTool_execute gm vaultPath tree params w =
     rethrow (Wrapped ''Failed to move note'')
       (let sourceFullPath = path_join [vaultPath, m_sourcePath params];
            destFullPath = path_join [vaultPath, m_destinationPath params]
        in andThen (fs_readFile sourceFullPath w) (\<lambda>content w1.
           case matter gm content of
             Inl e \<Rightarrow> (Inl e, w1)
           | Inr (frontmatter, noteContent) \<Rightarrow>
               (let (now, w2) = newDate w1;
                    updatedFrontmatter =
                      setKey ''modified'' (Str now)
                        (setKey ''title'' (strOr (m_newTitle params) (getKey frontmatter ''title''))
                           (spread [] frontmatter))
                in andThen (fs_mkdir (dirname destFullPath) w2) (\<lambda>u w3.
                   andThen (writeNote gm destFullPath noteContent updatedFrontmatter w3) (\<lambda>u w4.
                   andThen (fs_unlink sourceFullPath w4) (\<lambda>u w5.
                     (Inr \<lparr> n_path = destFullPath,
                            n_title = getKey updatedFrontmatter ''title'',
                            n_content = noteContent,
                            n_frontmatter = updatedFrontmatter,
                            n_tags = orElse (getKey updatedFrontmatter ''tags'') (Arr []),
                            n_created = getKey frontmatter ''created'',
                            n_modified = getKey updatedFrontmatter ''modified'' \<rparr>,
                      if m_updateLinks params \<noteq> Some False then
                        NoteMoveAndRenameTool_updateLinksInVault vaultPath tree
                          (m_sourcePath params) (m_destinationPath params) w5
                      else w5)))))))"

section \<open>NoteUpdateTool\<close>

record NoteUpdateParams =
  u_notePath :: string
  u_title :: "string option"
  u_content :: "string option"
  u_tags :: "string list option"
  u_frontmatter :: "frontmatter option"

record UpdatedNote =
  r_path :: string
  r_title :: fmval
  r_content :: string
  r_frontmatter :: frontmatter

definition NoteUpdateTool_execute ::
  "grayMatter \<Rightarrow> string \<Rightarrow> NoteUpdateParams \<Rightarrow> UpdatedNote io" where
  "NoteUpdateTool_execute gm vaultPath params w =
     rethrow (Wrapped ''Failed to update note'')
       (let fullPath = path_join [vaultPath, u_notePath params]
        in andThen (fs_readFile fullPath w) (\<lambda>content w1.
           case matter gm content of
             Inl e \<Rightarrow> (Inl e, w1)
           | Inr (existingFrontmatter, existingContent) \<Rightarrow>
               (let (now, w2) = newDate w1;
                    updatedFrontmatter =
                      setKey ''modified'' (Str now)
                        (setKey ''tags''
                           (case u_tags params of
                              Some ts \<Rightarrow> Arr ts
                            | None \<Rightarrow> getKey existingFrontmatter ''tags'')
                           (setKey ''title''
                              (strOr (u_title params) (getKey existingFrontmatter ''title''))
                              (spread (spread [] existingFrontmatter)
                                 (case u_frontmatter params of Some fm \<Rightarrow> fm | None \<Rightarrow> []))));
                    updatedContent =
                      (case u_content params of
                         Some c \<Rightarrow> if c \<noteq> [] then c else existingContent
                       | None \<Rightarrow> existingContent)
                in andThen (writeNote gm fullPath updatedContent updatedFrontmatter w2) (\<lambda>u w3.
                     (Inr \<lparr> r_path = u_notePath params,
                            r_title = getKey updatedFrontmatter ''title'',
                            r_content = updatedContent,
                            r_frontmatter = updatedFrontmatter \<rparr>, w3)))))"

section \<open>NoteDeletionTool\<close>

definition NoteDeletionTool_execute :: "string \<Rightarrow> string \<Rightarrow> string io" where
  \<comment> \<open>the result is \<open>deletedPath\<close>\<close>
  "NoteDeletionTool_execute vaultPath notePath w =
     rethrow (\<lambda>error. case error of
                         ENOENT p \<Rightarrow> Message (''Note not found: '' @ notePath)
                       | e \<Rightarrow> Wrapped ''Failed to delete note'' e)
       (let fullPath = path_join [vaultPath, notePath]
        in andThen (fs_access fullPath w) (\<lambda>u w1.
           andThen (fs_unlink fullPath w1) (\<lambda>u w2. (Inr notePath, w2))))"

section \<open>NoteCreationTool\<close>

definition isSlugChar :: "char \<Rightarrow> bool" where
  \<comment> \<open>the class \<open>[a-z0-9]\<close>\<close>
  "isSlugChar c = (c \<in> set ''abcdefghijklmnopqrstuvwxyz0123456789'')"

function dashRuns :: "string \<Rightarrow> string" where
  \<comment> \<open>\<open>.replace(/[^a-z0-9]+/g, '-')\<close>\<close>
  "dashRuns [] = []"
| "dashRuns (c # cs) =
     (if isSlugChar c then c # dashRuns cs
      else CHR ''-'' # dashRuns (dropWhile (\<lambda>x. \<not> isSlugChar x) cs))"
  by pat_completeness auto
termination
  by (relation "measure length") (auto simp: length_dropWhile_le less_Suc_eq_le)

definition trimDashes :: "string \<Rightarrow> string" where
  \<comment> \<open>\<open>.replace(/(^-|-$)/g, '')\<close>: a dash at the start, then a dash at the end of what
      follows it\<close>
  "trimDashes s =
     (let s1 = (case s of [] \<Rightarrow> [] | c # cs \<Rightarrow> if c = CHR ''-'' then cs else s)
      in if s1 \<noteq> [] \<and> last s1 = CHR ''-'' then butlast s1 else s1)"

definition sanitizeFilename :: "string \<Rightarrow> string" where
  "sanitizeFilename filename = trimDashes (dashRuns (toLowerCase filename))"

record NoteCreationParams =
  c_title :: string
  c_content :: "string option"
  c_template :: "string option"
  c_tags :: "string list option"
  c_folder :: "string option"
  c_frontmatter :: "frontmatter option"

definition loadTemplate :: "string \<Rightarrow> string option \<Rightarrow> string \<Rightarrow> world \<Rightarrow> string \<times> world" where
  \<comment> \<open>\<open>if (template) { try { noteContent = await fs.readFile(templatePath, 'utf-8') }
      catch { console.warn(...) } }\<close>: the content stays when the template cannot be read\<close>
  "loadTemplate vaultPath template content w =
     (case template of
        None \<Rightarrow> (content, w)
      | Some name \<Rightarrow>
          if name = [] then (content, w)
          else (case fs_readFile (path_join [vaultPath, ''_templates'', name]) w of
                  (Inl e, w') \<Rightarrow> (content, w')
                | (Inr text, w') \<Rightarrow> (text, w')))"

definition NoteCreationTool_execute ::
  "grayMatter \<Rightarrow> string \<Rightarrow> NoteCreationParams \<Rightarrow> Note io" where
  "NoteCreationTool_execute gm vaultPath params w =
     rethrow (Wrapped ''Failed to create note'')
       (let title = c_title params;
            content = (case c_content params of Some c \<Rightarrow> c | None \<Rightarrow> []);
            tags = (case c_tags params of Some ts \<Rightarrow> ts | None \<Rightarrow> []);
            folder = (case c_folder params of Some f \<Rightarrow> f | None \<Rightarrow> []);
            frontmatter = (case c_frontmatter params of Some fm \<Rightarrow> fm | None \<Rightarrow> []);
            filename = sanitizeFilename title;
            folderPath = path_join [vaultPath, folder];
            filePath = path_join [folderPath, filename @ ''.md'']
        in andThen (fs_mkdir folderPath w) (\<lambda>u w1.
           let (noteContent, w2) = loadTemplate vaultPath (c_template params) content w1;
               (created, w3) = newDate w2;
               (modified, w4) = newDate w3;
               finalFrontmatter =
                 setKey ''modified'' (Str modified)
                   (setKey ''created'' (Str created)
                      (setKey ''tags'' (Arr tags)
                         (setKey ''title'' (Str title) (spread [] frontmatter))))
           in andThen (writeNote gm filePath noteContent finalFrontmatter w4) (\<lambda>u w5.
                (Inr \<lparr> n_path = filePath,
                       n_title = Str title,
                       n_content = noteContent,
                       n_frontmatter = finalFrontmatter,
                       n_tags = Arr tags,
                       n_created = Str created,
                       n_modified = Str modified \<rparr>, w5))))"

section \<open>TagManagementTool\<close>

record TagStats =
  s_tag :: string
  s_count :: nat
  s_notes :: "string list"

fun tagLoop ::
  "grayMatter \<Rightarrow> string \<Rightarrow> (string list \<Rightarrow> string list option) \<Rightarrow> string list \<Rightarrow>
     string list \<Rightarrow> string list io" where
  \<comment> \<open>The loop of \<open>addTag\<close>, \<open>removeTag\<close> and \<open>renameTag\<close>. \<open>edit\<close> is the test on the
      set of tags and the change made when it holds: \<open>None\<close> leaves the note alone.
      \<open>updatedNotes\<close> collects the notes written.\<close>
  "tagLoop gm vaultPath edit [] updatedNotes w = (Inr updatedNotes, w)"
| "tagLoop gm vaultPath edit (file # rest) updatedNotes w =
     (let fullPath = path_join [vaultPath, file]
      in case fs_readFile fullPath w of
           (Inl e, w1) \<Rightarrow> (Inl e, w1)
         | (Inr content, w1) \<Rightarrow>
             (case matter gm content of
                Inl e \<Rightarrow> (Inl e, w1)
              | Inr (frontmatter, noteContent) \<Rightarrow>
                  (case newSet (orElse (getKey frontmatter ''tags'') (Arr [])) of
                     Inl e \<Rightarrow> (Inl e, w1)
                   | Inr tags \<Rightarrow>
                       (case edit tags of
                          None \<Rightarrow> tagLoop gm vaultPath edit rest updatedNotes w1
                        | Some tags' \<Rightarrow>
                            (let (now, w2) = newDate w1;
                                 updatedFrontmatter =
                                   setKey ''modified'' (Str now)
                                     (setKey ''tags'' (Arr tags') (spread [] frontmatter))
                             in case writeNote gm fullPath noteContent updatedFrontmatter w2 of
                                  (Inl e, w3) \<Rightarrow> (Inl e, w3)
                                | (Inr u, w3) \<Rightarrow>
                                    tagLoop gm vaultPath edit rest (updatedNotes @ [file]) w3)))))"

definition addEdit :: "string \<Rightarrow> string list \<Rightarrow> string list option" where
  \<comment> \<open>\<open>if (!tags.has(tag)) { tags.add(tag); ... }\<close>\<close>
  "addEdit tag tags = (if tag \<notin> set tags then Some (setAdd tags tag) else None)"

definition removeEdit :: "string \<Rightarrow> string list \<Rightarrow> string list option" where
  \<comment> \<open>\<open>if (tags.has(tag)) { tags.delete(tag); ... }\<close>\<close>
  "removeEdit tag tags = (if tag \<in> set tags then Some (setDelete tags tag) else None)"

definition renameEdit :: "string \<Rightarrow> string \<Rightarrow> string list \<Rightarrow> string list option" where
  \<comment> \<open>\<open>if (tags.has(oldTag)) { tags.delete(oldTag); tags.add(newTag); ... }\<close>\<close>
  "renameEdit oldTag newTag tags =
     (if oldTag \<in> set tags then Some (setAdd (setDelete tags oldTag) newTag) else None)"

definition tagStats :: "string \<Rightarrow> (error + string list) \<times> world \<Rightarrow> (error + TagStats) \<times> world" where
  "tagStats tag r =
     andThen r (\<lambda>updatedNotes w.
       (Inr \<lparr> s_tag = tag, s_count = length updatedNotes, s_notes = updatedNotes \<rparr>, w))"

definition filesOrAll :: "string \<Rightarrow> dirent \<Rightarrow> string list option \<Rightarrow> string list io" where
  \<comment> \<open>\<open>notePaths || await this.getAllMarkdownFiles(this.vaultPath)\<close>: an array, even an
      empty one, passes \<open>||\<close>\<close>
  "filesOrAll vaultPath tree notePaths w =
     (case notePaths of
        Some paths \<Rightarrow> (Inr paths, w)
      | None \<Rightarrow> listMarkdownFiles vaultPath tree w)"

definition addTag ::
  "grayMatter \<Rightarrow> string \<Rightarrow> dirent \<Rightarrow> string \<Rightarrow> string list option \<Rightarrow> TagStats io" where
  "addTag gm vaultPath tree tag notePaths w =
     andThen (filesOrAll vaultPath tree notePaths w)
       (\<lambda>files w1. tagStats tag (tagLoop gm vaultPath (addEdit tag) files [] w1))"

definition removeTag ::
  "grayMatter \<Rightarrow> string \<Rightarrow> dirent \<Rightarrow> string \<Rightarrow> string list option \<Rightarrow> TagStats io" where
  "removeTag gm vaultPath tree tag notePaths w =
     andThen (filesOrAll vaultPath tree notePaths w)
       (\<lambda>files w1. tagStats tag (tagLoop gm vaultPath (removeEdit tag) files [] w1))"

definition renameTag ::
  "grayMatter \<Rightarrow> string \<Rightarrow> dirent \<Rightarrow> string \<Rightarrow> string \<Rightarrow> TagStats io" where
  "renameTag gm vaultPath tree oldTag newTag w =
     andThen (listMarkdownFiles vaultPath tree w)
       (\<lambda>files w1.
          tagStats newTag (tagLoop gm vaultPath (renameEdit oldTag newTag) files [] w1))"

record TagOperation =
  t_type :: string
  t_tag :: string
  t_newTag :: "string option"
  t_notePaths :: "string list option"

definition TagManagementTool_execute ::
  "grayMatter \<Rightarrow> string \<Rightarrow> dirent \<Rightarrow> TagOperation \<Rightarrow> TagStats io" where
  "TagManagementTool_execute gm vaultPath tree operation w =
     rethrow (Wrapped ''Failed to manage tags'')
       (if t_type operation = ''add'' then
          addTag gm vaultPath tree (t_tag operation) (t_notePaths operation) w
        else if t_type operation = ''remove'' then
          removeTag gm vaultPath tree (t_tag operation) (t_notePaths operation) w
        else if t_type operation = ''rename'' then
          (case t_newTag operation of
             None \<Rightarrow> (Inl (Message ''New tag name is required for rename operation''), w)
           | Some newTag \<Rightarrow>
               if newTag = [] then
                 (Inl (Message ''New tag name is required for rename operation''), w)
               else renameTag gm vaultPath tree (t_tag operation) newTag w)
        else (Inl (Message ''Invalid tag operation''), w))"

section \<open>BaseAgent\<close>

text \<open>
  A tool of the agent has a name and an \<open>execute\<close> method that works on a state. The two
  answers of the language model, the analysis of the task and the plan, are parameters:
  \<open>understandTask\<close> gives the analysis, of which the agent reads \<open>requiredTools\<close>, and
  \<open>createExecutionPlan\<close> gives the field \<open>steps\<close> of the plan, which may be absent.
\<close>

record ('p, 'r, 's) Tool =
  tool_name :: string
  tool_execute :: "'p \<Rightarrow> 's \<Rightarrow> (error + 'r) \<times> 's"

record TaskUnderstanding =
  requiredTools :: "string list option"

record 'p Step =
  toolName :: string
  parameters :: 'p

record 'p OpenAI =
  understandTask :: "string \<Rightarrow> error + TaskUnderstanding"
  createExecutionPlan :: "TaskUnderstanding \<Rightarrow> string list \<Rightarrow> error + 'p Step list option"

record 'r TaskResult =
  success :: bool
  message :: string
  data :: "'r list option"
  failure :: "error option"

definition selectTools ::
  "('p, 'r, 's) Tool list \<Rightarrow> TaskUnderstanding \<Rightarrow> ('p, 'r, 's) Tool list" where
  \<comment> \<open>\<open>requiredTools?.includes(tool.name)\<close> is undefined, hence false, without the list\<close>
  "selectTools tools taskUnderstanding =
     filter (\<lambda>tool. case requiredTools taskUnderstanding of
                       None \<Rightarrow> False
                     | Some names \<Rightarrow> tool_name tool \<in> set names) tools"

definition executeStep ::
  "('p, 'r, 's) Tool list \<Rightarrow> 'p Step \<Rightarrow> 's \<Rightarrow> (error + 'r) \<times> 's" where
  "executeStep tools step s =
     (case find (\<lambda>t. tool_name t = toolName step) tools of
        None \<Rightarrow> (Inl (Message (''Tool '' @ toolName step @ '' not found'')), s)
      | Some tool \<Rightarrow> tool_execute tool (parameters step) s)"

fun executePlanFrom ::
  "('p, 'r, 's) Tool list \<Rightarrow> 'p Step list \<Rightarrow> 'r list \<Rightarrow> 's \<Rightarrow> (error + 'r list) \<times> 's" where
  \<comment> \<open>the loop of \<open>executePlan\<close>, \<open>results\<close> being the results pushed so far\<close>
  "executePlanFrom tools [] results s = (Inr results, s)"
| "executePlanFrom tools (step # plan) results s =
     (case executeStep tools step s of
        (Inl e, s1) \<Rightarrow> (Inl e, s1)
      | (Inr result, s1) \<Rightarrow> executePlanFrom tools plan (results @ [result]) s1)"

definition executePlan ::
  "('p, 'r, 's) Tool list \<Rightarrow> 'p Step list option \<Rightarrow> 's \<Rightarrow> (error + 'r list) \<times> 's" where
  \<comment> \<open>\<open>for (const step of plan)\<close> throws a type error when \<open>plan\<close> is undefined\<close>
  "executePlan tools plan s =
     (case plan of
        None \<Rightarrow> (Inl TypeError, s)
      | Some steps \<Rightarrow> executePlanFrom tools steps [] s)"

definition BaseAgent_execute ::
  "'p OpenAI \<Rightarrow> ('p, 'r, 's) Tool list \<Rightarrow> string \<Rightarrow> 's \<Rightarrow> 'r TaskResult \<times> 's" where
  "BaseAgent_execute openai tools task s =
     (let failed = (\<lambda>e. \<lparr> success = False, message = ''Task execution failed'',
                          data = None, failure = Some e \<rparr>)
      in case understandTask openai task of
           Inl e \<Rightarrow> (failed e, s)
         | Inr taskUnderstanding \<Rightarrow>
             (let selectedTools = selectTools tools taskUnderstanding
              in case createExecutionPlan openai taskUnderstanding
                        (map tool_name selectedTools) of
                   Inl e \<Rightarrow> (failed e, s)
                 | Inr executionPlan \<Rightarrow>
                     (case executePlan tools executionPlan s of
                        (Inl e, s1) \<Rightarrow> (failed e, s1)
                      | (Inr results, s1) \<Rightarrow>
                          (\<lparr> success = True, message = ''Task completed successfully'',
                             data = Some results, failure = None \<rparr>, s1))))"

section \<open>FolderOperationTool\<close>

text \<open>
  The folder tool lists two places: the vault, when it updates the links after a move
  (\<open>tree\<close> is what \<open>fs.readdir\<close> reports there), and the folder whose statistics it
  returns (\<open>statsTree\<close> is what \<open>fs.readdir\<close> reports there when the statistics are
  taken). \<open>getFolderStats\<close> catches the error of a directory that cannot be read and
  counts nothing in it.
\<close>

record FolderOperation =
  f_type :: string
  f_sourcePath :: string
  f_destinationPath :: "string option"

record FolderStats =
  st_path :: string
  st_noteCount :: nat
  st_subfolderCount :: nat

fun folderCounts :: "string \<Rightarrow> string \<Rightarrow> dirent \<Rightarrow> (nat \<times> nat) \<times> access list"
  and entryCounts ::
    "string \<Rightarrow> string \<Rightarrow> (string \<times> dirent) list \<Rightarrow> (nat \<times> nat) \<times> access list" where
  \<comment> \<open>the counts \<open>(noteCount, subfolderCount)\<close> of \<open>getFolderStats(folderPath)\<close> and
      the calls of \<open>fs.readdir\<close> it makes\<close>
  "folderCounts vaultPath folderPath (DirEntry entries) =
     (case entryCounts vaultPath folderPath entries of
        (counts, calls) \<Rightarrow> (counts, Readdir (path_join [vaultPath, folderPath]) # calls))"
| "folderCounts vaultPath folderPath BrokenDir =
     ((0, 0), [Readdir (path_join [vaultPath, folderPath])])"
| "folderCounts vaultPath folderPath FileEntry =
     ((0, 0), [Readdir (path_join [vaultPath, folderPath])])"
| "folderCounts vaultPath folderPath OtherEntry =
     ((0, 0), [Readdir (path_join [vaultPath, folderPath])])"
| "entryCounts vaultPath folderPath [] = ((0, 0), [])"
| "entryCounts vaultPath folderPath ((name, entry) # rest) =
     (case entryCounts vaultPath folderPath rest of
        ((notes, subfolders), calls) \<Rightarrow>
          if isDirectory entry then
            (case folderCounts vaultPath (path_join [folderPath, name]) entry of
               ((subNotes, subSubfolders), subCalls) \<Rightarrow>
                 ((subNotes + notes, Suc (subSubfolders + subfolders)), subCalls @ calls))
          else if isFile entry \<and> endsWithMd name then ((Suc notes, subfolders), calls)
          else ((notes, subfolders), calls))"

definition getFolderStats ::
  "string \<Rightarrow> dirent \<Rightarrow> string \<Rightarrow> world \<Rightarrow> FolderStats \<times> world" where
  "getFolderStats vaultPath statsTree folderPath w =
     (case folderCounts vaultPath folderPath statsTree of
        ((notes, subfolders), calls) \<Rightarrow>
          (\<lparr> st_path = folderPath, st_noteCount = notes, st_subfolderCount = subfolders \<rparr>,
           w\<lparr>accesses := accesses w @ calls\<rparr>))"

definition createFolder :: "string \<Rightarrow> dirent \<Rightarrow> string \<Rightarrow> FolderStats io" where
  "createFolder vaultPath statsTree folderPath w =
     (let fullPath = path_join [vaultPath, folderPath]
      in andThen (fs_mkdir fullPath w) (\<lambda>u w1.
           case getFolderStats vaultPath statsTree folderPath w1 of
             (stats, w2) \<Rightarrow> (Inr stats, w2)))"

definition deleteFolder :: "string \<Rightarrow> dirent \<Rightarrow> string \<Rightarrow> FolderStats io" where
  "deleteFolder vaultPath statsTree folderPath w =
     (let fullPath = path_join [vaultPath, folderPath]
      in case getFolderStats vaultPath statsTree folderPath w of
           (stats, w1) \<Rightarrow> andThen (fs_rm fullPath w1) (\<lambda>u w2. (Inr stats, w2)))"

definition moveFolder ::
  "string \<Rightarrow> dirent \<Rightarrow> dirent \<Rightarrow> string \<Rightarrow> string \<Rightarrow> FolderStats io" where
  "moveFolder vaultPath tree statsTree sourcePath destinationPath w =
     (let sourceFullPath = path_join [vaultPath, sourcePath];
          destFullPath = path_join [vaultPath, destinationPath]
      in andThen (fs_mkdir (dirname destFullPath) w) (\<lambda>u w1.
         andThen (fs_rename sourceFullPath destFullPath w1) (\<lambda>u w2.
           case getFolderStats vaultPath statsTree destinationPath
                  (FolderOperationTool_updateLinksInVault vaultPath tree
                     sourcePath destinationPath w2) of
             (stats, w3) \<Rightarrow> (Inr stats, w3))))"

definition FolderOperationTool_execute ::
  "string \<Rightarrow> dirent \<Rightarrow> dirent \<Rightarrow> FolderOperation \<Rightarrow> FolderStats io" where
  \<comment> \<open>the result is \<open>stats\<close>\<close>
  "FolderOperationTool_execute vaultPath tree statsTree operation w =
     rethrow (Wrapped ''Failed to perform folder operation'')
       (if f_type operation = ''create'' then
          createFolder vaultPath statsTree (f_sourcePath operation) w
        else if f_type operation = ''delete'' then
          deleteFolder vaultPath statsTree (f_sourcePath operation) w
        else if f_type operation = ''rename'' \<or> f_type operation = ''move'' then
          (case f_destinationPath operation of
             None \<Rightarrow>
               (Inl (Message ''Destination path is required for rename/move operation''), w)
           | Some destinationPath \<Rightarrow>
               if destinationPath = [] then
                 (Inl (Message ''Destination path is required for rename/move operation''), w)
               else moveFolder vaultPath tree statsTree (f_sourcePath operation)
                      destinationPath w)
        else (Inl (Message ''Invalid folder operation''), w))"

section \<open>Sequences of operations\<close>

datatype operation =
    Create NoteCreationParams
  | Update NoteUpdateParams
  | Move dirent NoteMoveParams
  | Tag dirent TagOperation

fun applyOperation :: "grayMatter \<Rightarrow> string \<Rightarrow> operation \<Rightarrow> world \<Rightarrow> world" where
  \<comment> \<open>the world after one call of a tool, whether it returned or threw\<close>
  "applyOperation gm vaultPath (Create params) w =
     snd (NoteCreationTool_execute gm vaultPath params w)"
| "applyOperation gm vaultPath (Update params) w =
     snd (NoteUpdateTool_execute gm vaultPath params w)"
| "applyOperation gm vaultPath (Move tree params) w =
     snd (NoteMoveAndRenameTool_execute gm vaultPath tree params w)"
| "applyOperation gm vaultPath (Tag tree operation) w =
     snd (TagManagementTool_execute gm vaultPath tree operation w)"

definition applyAll :: "grayMatter \<Rightarrow> string \<Rightarrow> operation list \<Rightarrow> world \<Rightarrow> world" where
  "applyAll gm vaultPath ops w = foldl (\<lambda>w' op. applyOperation gm vaultPath op w') w ops"

definition modifiedOf :: "frontmatter \<Rightarrow> string" where
  \<comment> \<open>the timestamp under \<open>modified\<close>; timestamps of the form \<open>toISOString\<close> gives are
      ordered in time as they are ordered as strings\<close>
  "modifiedOf fm = (case getKey fm ''modified'' of Str t \<Rightarrow> t | _ \<Rightarrow> [])"

definition tagsOf :: "frontmatter \<Rightarrow> string list" where
  "tagsOf fm = (case getKey fm ''tags'' of Arr ts \<Rightarrow> ts | _ \<Rightarrow> [])"

definition newAccesses :: "world \<Rightarrow> world \<Rightarrow> access list" where
  \<comment> \<open>the calls of \<open>fs\<close> made between two worlds\<close>
  "newAccesses w w' = drop (length (accesses w)) (accesses w')"

definition newlySerialized :: "world \<Rightarrow> world \<Rightarrow> (string \<times> frontmatter) list" where
  \<comment> \<open>the notes written through \<open>matter.stringify\<close> between two worlds\<close>
  "newlySerialized w w' = drop (length (serialized w)) (serialized w')"

section \<open>The folder rewriter and an empty identifier\<close>

fun prefixed :: "string \<Rightarrow> segment \<Rightarrow> segment list" where
  \<comment> \<open>a reference with the text \<open>new\<close> put before it\<close>
  "prefixed new (Text t) = [Text t]"
| "prefixed new (Link target alias) = [Text new, Link target alias]"

section \<open>A stand-in for gray-matter in worked examples\<close>

text \<open>
  The worked examples need some \<open>matter\<close> and \<open>matter.stringify\<close> to run with. In
  this one a file is the list of its tags, separated by commas, and has an empty body.
\<close>

definition tagListCodec :: grayMatter where
  "tagListCodec =
     \<lparr> matter = (\<lambda>text. Inr ([(''tags'', Arr (filter (\<lambda>t. t \<noteq> []) (splitOn CHR '','' text)))], [])),
       stringify = (\<lambda>body fm. Inr (joinWith '','' (tagsOf fm))) \<rparr>"

definition emptyWorld :: world where
  \<comment> \<open>no file, no failing call, and a clock that reads \<open>t0\<close>, \<open>t1\<close>, \<open>t2\<close> up to \<open>t9\<close>\<close>
  "emptyWorld =
     \<lparr> disk = Map.empty, fails = {}, accesses = [],
       clock = (\<lambda>k. [CHR ''t'', ''0123456789'' ! min k 9]), ticks = 0, serialized = [] \<rparr>"

section \<open>What a cascade does to one file\<close>

definition cascadeEffect ::
  "world \<Rightarrow> string list \<Rightarrow> string \<Rightarrow> string \<Rightarrow> string \<Rightarrow> world \<Rightarrow> bool" where
  \<comment> \<open>What a cascade from \<open>w\<close> to \<open>w'\<close> did to the file \<open>doc\<close>, whose text was
      \<open>content\<close> and is \<open>updated\<close> after the replacement, \<open>reached\<close> being the files of the
      listing up to \<open>doc\<close>, with it. A write of the file is attempted only when the two
      texts differ; when they are equal the file keeps its text; the file holds one of
      the two texts; when they differ and the files up to \<open>doc\<close> can be read and written,
      the file is written and holds \<open>updated\<close>. The clock is not read and no frontmatter
      is serialized.\<close>
  "cascadeEffect w reached doc content updated w' =
     ((WriteFile doc \<in> set (newAccesses w w') \<longrightarrow> updated \<noteq> content) \<and>
      (updated = content \<longrightarrow> disk w' doc = Some content) \<and>
      (disk w' doc = Some content \<or> disk w' doc = Some updated) \<and>
      (updated \<noteq> content \<and>
       (\<forall>f \<in> set reached.
          ReadFile f \<notin> fails w \<and> WriteFile f \<notin> fails w \<and> disk w f \<noteq> None) \<longrightarrow>
         WriteFile doc \<in> set (newAccesses w w') \<and> disk w' doc = Some updated) \<and>
      ticks w' = ticks w \<and> serialized w' = serialized w)"

definition threeNotes :: world where
  \<comment> \<open>a vault \<open>/vault\<close> of three notes, of which the second cannot be read\<close>
  "threeNotes =
     emptyWorld\<lparr> disk := [''/vault/a.md'' \<mapsto> ''[[foo]]'', ''/vault/b.md'' \<mapsto> ''[[foo]]'',
                           ''/vault/c.md'' \<mapsto> ''[[foo]]''],
                  fails := {ReadFile ''/vault/b.md''} \<rparr>"

definition threeNotesHere :: world where
  \<comment> \<open>the same three notes in the vault \<open>.\<close>, each with the one tag \<open>x\<close>\<close>
  "threeNotesHere =
     emptyWorld\<lparr> disk := [''a.md'' \<mapsto> ''x'', ''b.md'' \<mapsto> ''x'', ''c.md'' \<mapsto> ''x''],
                  fails := {ReadFile ''b.md''} \<rparr>"

definition threeNotesTree :: dirent where
  "threeNotesTree = DirEntry [(''a.md'', FileEntry), (''b.md'', FileEntry), (''c.md'', FileEntry)]"

section \<open>Where a new note goes\<close>

definition createdPath :: "string \<Rightarrow> NoteCreationParams \<Rightarrow> string" where
  \<comment> \<open>\<open>filePath\<close> of \<open>NoteCreationTool.execute\<close>\<close>
  "createdPath vaultPath params =
     path_join [path_join [vaultPath, (case c_folder params of Some f \<Rightarrow> f | None \<Rightarrow> [])],
                sanitizeFilename (c_title params) @ ''.md'']"

definition templatePath :: "string \<Rightarrow> string \<Rightarrow> string" where
  "templatePath vaultPath name = path_join [vaultPath, ''_templates'', name]"

definition newContent :: "string \<Rightarrow> NoteCreationParams \<Rightarrow> world \<Rightarrow> string" where
  \<comment> \<open>the content of the new note: the text of the template when one is named and can
      be read, the content given otherwise, and the empty text without either\<close>
  "newContent vaultPath params w =
     (let content = (case c_content params of Some c \<Rightarrow> c | None \<Rightarrow> [])
      in case c_template params of
           None \<Rightarrow> content
         | Some name \<Rightarrow>
             if name = [] \<or> ReadFile (templatePath vaultPath name) \<in> fails w then content
             else (case disk w (templatePath vaultPath name) of
                     Some t \<Rightarrow> t
                   | None \<Rightarrow> content))"

definition newFrontmatter :: "NoteCreationParams \<Rightarrow> string \<Rightarrow> string \<Rightarrow> frontmatter" where
  \<comment> \<open>the frontmatter of the new note, key by key: the keys of the frontmatter given, in
      their order, then those of \<open>title\<close>, \<open>tags\<close>, \<open>created\<close> and \<open>modified\<close> that it
      has not; under these four the title and the tags given and the two times, under
      every other key the value given\<close>
  "newFrontmatter params created modified =
     (let given = (case c_frontmatter params of Some fm \<Rightarrow> fm | None \<Rightarrow> []);
          keys = map fst given @
                 filter (\<lambda>k. k \<notin> fst ` set given) [''title'', ''tags'', ''created'', ''modified'']
      in map (\<lambda>k. (k, if k = ''title'' then Str (c_title params)
                      else if k = ''tags'' then
                        Arr (case c_tags params of Some ts \<Rightarrow> ts | None \<Rightarrow> [])
                      else if k = ''created'' then Str created
                      else if k = ''modified'' then Str modified
                      else the (map_of given k))) keys)"

section \<open>Timestamps in the order of the writes\<close>

definition monotoneClock :: "world \<Rightarrow> bool" where
  \<comment> \<open>a later reading of the clock is not an earlier time\<close>
  "monotoneClock w = (\<forall>i j. i \<le> j \<longrightarrow> clock w i \<le> clock w j)"

definition stamped :: "world \<Rightarrow> bool" where
  \<comment> \<open>the notes written so far carry, under \<open>modified\<close>, readings of the clock that were
      taken, and carry them in the order of the writes\<close>
  "stamped w =
     (sorted (map (modifiedOf \<circ> snd) (serialized w)) \<and>
      (\<forall>e \<in> set (serialized w). \<exists>k < ticks w. modifiedOf (snd e) = clock w k))"

definition wroteAtMostOne :: "world \<Rightarrow> world \<Rightarrow> bool" where
  \<comment> \<open>from \<open>w\<close> to \<open>w'\<close> the clock was read some times and at most one note was
      written through \<open>matter.stringify\<close>, stamped with one of those readings\<close>
  "wroteAtMostOne w w' =
     (clock w' = clock w \<and> ticks w \<le> ticks w' \<and>
      (serialized w' = serialized w \<or>
       (\<exists>p fm k. serialized w' = serialized w @ [(p, fm)] \<and>
                  modifiedOf fm = clock w k \<and> ticks w \<le> k \<and> k < ticks w')))"

section \<open>Facts about strings and the two rewriters\<close>

lemma stripPrefix_Some_iff: "stripPrefix p s = Some r \<longleftrightarrow> s = p @ r"
  by (induction p s rule: stripPrefix.induct) auto

lemma stripPrefix_None_iff: "stripPrefix p s = None \<longleftrightarrow> (\<forall>r. s \<noteq> p @ r)"
  by (metis stripPrefix_Some_iff not_Some_eq)

lemma literalPattern_chars:
  "literalPattern s \<Longrightarrow> CHR ''['' \<notin> set s \<and> CHR '']'' \<notin> set s \<and> CHR ''|'' \<notin> set s"
  by (auto simp: literalPattern_def)

lemma matchNoteLink_not_open: "c \<noteq> CHR ''['' \<Longrightarrow> matchNoteLink old (c # s) = None"
  by (simp add: matchNoteLink_def)

lemma matchNoteLink_not_open2: "c \<noteq> CHR ''['' \<Longrightarrow> matchNoteLink old (d # c # s) = None"
  by (simp add: matchNoteLink_def)

lemma hasOpening_mem: "hasOpening t \<Longrightarrow> CHR ''['' \<in> set t"
  by (induction t rule: hasOpening.induct) auto

lemma hasOpening_Cons:
  "hasOpening (a # s) \<longleftrightarrow> (a = CHR ''['' \<and> s \<noteq> [] \<and> hd s = CHR ''['') \<or> hasOpening s"
  by (cases s) auto

lemma hasOpening_append:
  "hasOpening (xs @ ys) \<longleftrightarrow>
     hasOpening xs \<or> hasOpening ys \<or>
     (xs \<noteq> [] \<and> ys \<noteq> [] \<and> last xs = CHR ''['' \<and> hd ys = CHR ''['')"
proof (induction xs)
  case Nil
  then show ?case by simp
next
  case (Cons a xs)
  show ?case
  proof (cases xs)
    case Nil
    then show ?thesis by (cases ys) auto
  next
    case (Cons b bs)
    then show ?thesis using Cons.IH by auto
  qed
qed

lemma plain_text_cases:
  assumes "\<not> hasOpening (c # cs)" "last (c # cs) \<noteq> CHR ''[''"
  obtains (closed) "c \<noteq> CHR ''[''"
  | (single) d ds where "c = CHR ''[''" "cs = d # ds" "d \<noteq> CHR ''[''"
  using assms by (cases cs) auto

lemma replaceNoteLinks_text:
  assumes "\<not> hasOpening t" "t = [] \<or> last t \<noteq> CHR ''[''"
  shows "replaceNoteLinks old new (t @ s) = t @ replaceNoteLinks old new s"
  using assms
proof (induction t)
  case Nil
  then show ?case by simp
next
  case (Cons c cs)
  have l: "last (c # cs) \<noteq> CHR ''[''" using Cons.prems(2) by simp
  have rest: "\<not> hasOpening cs" "cs = [] \<or> last cs \<noteq> CHR ''[''"
    using Cons.prems(1) l by (auto simp: hasOpening_Cons split: if_splits)
  have IH: "replaceNoteLinks old new (cs @ s) = cs @ replaceNoteLinks old new s"
    by (rule Cons.IH [OF rest])
  from Cons.prems(1) l show ?case
  proof (cases rule: plain_text_cases)
    case closed
    then show ?thesis using IH by (simp add: matchNoteLink_not_open)
  next
    case (single d ds)
    then have "matchNoteLink old (c # d # (ds @ s)) = None"
      by (simp add: matchNoteLink_not_open2)
    then show ?thesis using IH single by simp
  qed
qed

lemma dropWhile_notBracket_append:
  "CHR '']'' \<notin> set a \<Longrightarrow> dropWhile notBracket (a @ CHR '']'' # s) = CHR '']'' # s"
  by (induction a) (auto simp: notBracket_def)

lemma takeWhile_notBracket_append:
  "CHR '']'' \<notin> set a \<Longrightarrow> takeWhile notBracket (a @ CHR '']'' # s) = a"
  by (induction a) (auto simp: notBracket_def)

lemma matchNoteLink_plain:
  "matchNoteLink old (''[['' @ old @ '']]'' @ s) = Some ([], s)"
proof -
  have "stripPrefix (''[['' @ old) (''[['' @ old @ '']]'' @ s) = Some ('']]'' @ s)"
    by (simp add: stripPrefix_Some_iff)
  then show ?thesis by (simp add: matchNoteLink_def)
qed

lemma matchNoteLink_alias:
  assumes "CHR '']'' \<notin> set a"
  shows "matchNoteLink old (''[['' @ old @ ''|'' @ a @ '']]'' @ s) = Some (''|'' @ a, s)"
proof -
  have "stripPrefix (''[['' @ old) (''[['' @ old @ ''|'' @ a @ '']]'' @ s)
          = Some (''|'' @ a @ '']]'' @ s)"
    by (simp add: stripPrefix_Some_iff)
  then show ?thesis using assms
    by (simp add: matchNoteLink_def dropWhile_notBracket_append takeWhile_notBracket_append)
qed

lemma matchNoteLink_other:
  assumes old: "CHR '']'' \<notin> set old" "CHR ''|'' \<notin> set old"
    and t: "CHR '']'' \<notin> set t" "CHR ''|'' \<notin> set t" "t \<noteq> old"
    and tail: "tail = CHR '']'' # x \<or> tail = CHR ''|'' # x"
  shows "matchNoteLink old (''[['' @ t @ tail) = None"
proof (cases "stripPrefix (''[['' @ old) (''[['' @ t @ tail)")
  case None
  then show ?thesis by (simp add: matchNoteLink_def)
next
  case (Some r)
  then have eq: "t @ tail = old @ r" by (simp add: stripPrefix_Some_iff)
  then obtain us where us: "(t = old @ us \<and> us @ tail = r) \<or> (t @ us = old \<and> tail = us @ r)"
    by (auto simp: append_eq_append_conv2)
  have "us \<noteq> []" using us t(3) by auto
  then obtain u us' where u: "us = u # us'" by (cases us) auto
  show ?thesis
  proof (cases "t = old @ us \<and> us @ tail = r")
    case True
    then have "u \<in> set t" "r = u # us' @ tail" using u by auto
    then have "u \<noteq> CHR '']''" "u \<noteq> CHR ''|''" using t by auto
    then show ?thesis using Some \<open>r = u # us' @ tail\<close> by (simp add: matchNoteLink_def)
  next
    case False
    then have "t @ us = old" "tail = us @ r" using us by auto
    then have "u \<in> set old" "hd tail = u" using u by auto
    then show ?thesis using old tail by auto
  qed
qed

lemma inside_reference:
  \<comment> \<open>what follows the first bracket of a reference is plain text\<close>
  assumes t: "CHR ''['' \<notin> set t"
    and x: "\<not> hasOpening x" "x \<noteq> []" "last x \<noteq> CHR ''[''"
    and tail: "tail = CHR '']'' # x \<or> tail = CHR ''|'' # x"
  shows "\<not> hasOpening (CHR ''['' # t @ tail)" and "last (CHR ''['' # t @ tail) \<noteq> CHR ''[''"
proof -
  have "\<not> hasOpening tail" using x tail by (auto simp: hasOpening_Cons)
  moreover have "\<not> hasOpening t" using t hasOpening_mem by blast
  moreover have "t \<noteq> [] \<Longrightarrow> last t \<noteq> CHR ''[''" using t last_in_set by metis
  moreover have "hd (t @ tail) \<noteq> CHR ''[''"
    using t tail by (cases t) auto
  ultimately show "\<not> hasOpening (CHR ''['' # t @ tail)"
    using tail by (auto simp: hasOpening_Cons hasOpening_append)
  show "last (CHR ''['' # t @ tail) \<noteq> CHR ''[''"
    using x tail by auto
qed

lemma replaceNoteLinks_other:
  assumes old: "CHR '']'' \<notin> set old" "CHR ''|'' \<notin> set old"
    and t: "CHR '']'' \<notin> set t" "CHR ''|'' \<notin> set t" "CHR ''['' \<notin> set t" "t \<noteq> old"
    and x: "\<not> hasOpening x" "x \<noteq> []" "last x \<noteq> CHR ''[''"
    and tail: "tail = CHR '']'' # x \<or> tail = CHR ''|'' # x"
  shows "replaceNoteLinks old new (''[['' @ t @ tail @ s)
           = ''[['' @ t @ tail @ replaceNoteLinks old new s"
proof -
  obtain c where tl: "tail @ s = c # (x @ s)" "c = CHR '']'' \<or> c = CHR ''|''"
    using tail by auto
  have m1: "matchNoteLink old (''[['' @ t @ (c # (x @ s))) = None"
    by (rule matchNoteLink_other [OF old t(1,2,4)]) (use tl in auto)
  have r: "replaceNoteLinks old new ((CHR ''['' # t @ tail) @ s)
             = (CHR ''['' # t @ tail) @ replaceNoteLinks old new s"
    by (rule replaceNoteLinks_text)
       (use inside_reference [OF t(3) x tail] in auto)
  show ?thesis using m1 r tl by simp
qed

lemma render_Cons: "render (seg # segs) = renderSegment seg @ render segs"
  by (simp add: render_def)

lemma replaceNoteLinks_render_append:
  assumes "literalPattern old" "\<forall>seg \<in> set segs. wellFormedSegment seg"
  shows "replaceNoteLinks old new (render segs @ s)
           = render (map (retarget old new) segs) @ replaceNoteLinks old new s"
  using assms(2)
proof (induction segs)
  case Nil
  then show ?case by (simp add: render_def)
next
  case (Cons seg segs)
  note o = literalPattern_chars [OF assms(1)]
  from Cons have IH: "replaceNoteLinks old new (render segs @ s)
      = render (map (retarget old new) segs) @ replaceNoteLinks old new s"
    and wf: "wellFormedSegment seg" by auto
  show ?case
  proof (cases seg)
    case (Text t)
    then show ?thesis using wf IH by (simp add: render_Cons replaceNoteLinks_text)
  next
    case (Link target al)
    show ?thesis
    proof (cases "target = old")
      case True
      show ?thesis
      proof (cases al)
        case None
        have "replaceNoteLinks old new (''[['' @ old @ '']]'' @ (render segs @ s))
            = ''[['' @ new @ '']]'' @ replaceNoteLinks old new (render segs @ s)"
          using matchNoteLink_plain [of old "render segs @ s"] by simp
        then show ?thesis using Link True None IH by (simp add: render_Cons)
      next
        case (Some a)
        then have a: "CHR '']'' \<notin> set a" using wf Link by auto
        have "replaceNoteLinks old new (''[['' @ old @ ''|'' @ a @ '']]'' @ (render segs @ s))
            = ''[['' @ new @ ''|'' @ a @ '']]'' @ replaceNoteLinks old new (render segs @ s)"
          using matchNoteLink_alias [OF a, of old "render segs @ s"] by simp
        then show ?thesis using Link True Some IH by (simp add: render_Cons)
      qed
    next
      case False
      have t: "CHR '']'' \<notin> set target" "CHR ''|'' \<notin> set target" "CHR ''['' \<notin> set target"
        using wf Link by auto
      show ?thesis
      proof (cases al)
        case None
        have "replaceNoteLinks old new (''[['' @ target @ '']]'' @ (render segs @ s))
            = ''[['' @ target @ '']]'' @ replaceNoteLinks old new (render segs @ s)"
          by (rule replaceNoteLinks_other [where x = "'']''"]) (use o t False in auto)
        then show ?thesis using Link False None IH by (simp add: render_Cons)
      next
        case (Some a)
        then have a: "\<not> hasOpening (a @ '']]'')"
          using wf Link by (auto simp: hasOpening_append)
        have "replaceNoteLinks old new (''[['' @ target @ (''|'' @ a @ '']]'') @ (render segs @ s))
            = ''[['' @ target @ (''|'' @ a @ '']]'') @ replaceNoteLinks old new (render segs @ s)"
          by (rule replaceNoteLinks_other [where x = "a @ '']]''"]) (use o t False a in auto)
        then show ?thesis using Link False Some IH by (simp add: render_Cons)
      qed
    qed
  qed
qed

lemma replaceNoteLinks_render:
  assumes "literalPattern old" "\<forall>seg \<in> set segs. wellFormedSegment seg"
  shows "replaceNoteLinks old new (render segs) = render (map (retarget old new) segs)"
  using replaceNoteLinks_render_append [OF assms, of new "[]"] by simp

lemma matchFolderLink_not_open: "c \<noteq> CHR ''['' \<Longrightarrow> matchFolderLink old (c # s) = None"
  by (simp add: matchFolderLink_def)

lemma matchFolderLink_not_open2: "c \<noteq> CHR ''['' \<Longrightarrow> matchFolderLink old (d # c # s) = None"
  by (simp add: matchFolderLink_def)

lemma replaceFolderLinks_text:
  assumes "\<not> hasOpening t" "t = [] \<or> last t \<noteq> CHR ''[''"
  shows "replaceFolderLinks old new (t @ s) = t @ replaceFolderLinks old new s"
  using assms
proof (induction t)
  case Nil
  then show ?case by simp
next
  case (Cons c cs)
  have l: "last (c # cs) \<noteq> CHR ''[''" using Cons.prems(2) by simp
  have rest: "\<not> hasOpening cs" "cs = [] \<or> last cs \<noteq> CHR ''[''"
    using Cons.prems(1) l by (auto simp: hasOpening_Cons split: if_splits)
  have IH: "replaceFolderLinks old new (cs @ s) = cs @ replaceFolderLinks old new s"
    by (rule Cons.IH [OF rest])
  from Cons.prems(1) l show ?case
  proof (cases rule: plain_text_cases)
    case closed
    then show ?thesis using IH by (simp add: matchFolderLink_not_open)
  next
    case (single d ds)
    then have "matchFolderLink old (c # d # (ds @ s)) = None"
      by (simp add: matchFolderLink_not_open2)
    then show ?thesis using IH single by simp
  qed
qed

lemma matchFolderLink_inner:
  assumes "CHR '']'' \<notin> set inner"
  shows "matchFolderLink old (''[['' @ old @ inner @ '']]'' @ s)
           = Some (''[['' @ old @ inner @ '']]'', s)"
proof -
  have "stripPrefix (''[['' @ old) (''[['' @ old @ inner @ '']]'' @ s) = Some (inner @ '']]'' @ s)"
    by (simp add: stripPrefix_Some_iff)
  then show ?thesis using assms
    by (simp add: matchFolderLink_def dropWhile_notBracket_append takeWhile_notBracket_append)
qed

lemma replaceFirst_at_two:
  assumes "old \<noteq> []" "CHR ''['' \<notin> set old"
  shows "replaceFirst old new (''[['' @ old @ z) = ''[['' @ new @ z"
proof -
  obtain h hs where h: "old = h # hs" "h \<noteq> CHR ''[''"
    using assms by (cases old) auto
  have "stripPrefix old (old @ z) = Some z" by (simp add: stripPrefix_Some_iff)
  then show ?thesis using h by simp
qed

lemma matchFolderLink_other:
  assumes old: "CHR '']'' \<notin> set old" "CHR ''|'' \<notin> set old"
    and t: "stripPrefix old t = None"
    and tail: "tail = CHR '']'' # x \<or> tail = CHR ''|'' # x"
  shows "matchFolderLink old (''[['' @ t @ tail) = None"
proof (cases "stripPrefix (''[['' @ old) (''[['' @ t @ tail)")
  case None
  then show ?thesis by (simp add: matchFolderLink_def)
next
  case (Some r)
  then have eq: "t @ tail = old @ r" by (simp add: stripPrefix_Some_iff)
  then obtain us where us: "(t = old @ us \<and> us @ tail = r) \<or> (t @ us = old \<and> tail = us @ r)"
    by (auto simp: append_eq_append_conv2)
  have np: "t \<noteq> old @ us" using t by (simp add: stripPrefix_None_iff)
  then have "t @ us = old" "tail = us @ r" using us by auto
  moreover have "us \<noteq> []" using np \<open>t @ us = old\<close> by auto
  ultimately have "hd tail \<in> set old" by (cases us) auto
  then show ?thesis using old tail by auto
qed

lemma replaceFolderLinks_other:
  assumes old: "CHR '']'' \<notin> set old" "CHR ''|'' \<notin> set old"
    and t: "CHR ''['' \<notin> set t" "stripPrefix old t = None"
    and x: "\<not> hasOpening x" "x \<noteq> []" "last x \<noteq> CHR ''[''"
    and tail: "tail = CHR '']'' # x \<or> tail = CHR ''|'' # x"
  shows "replaceFolderLinks old new (''[['' @ t @ tail @ s)
           = ''[['' @ t @ tail @ replaceFolderLinks old new s"
proof -
  obtain c where tl: "tail @ s = c # (x @ s)" "c = CHR '']'' \<or> c = CHR ''|''"
    using tail by auto
  have m1: "matchFolderLink old (''[['' @ t @ (c # (x @ s))) = None"
    by (rule matchFolderLink_other [OF old t(2)]) (use tl in auto)
  have r: "replaceFolderLinks old new ((CHR ''['' # t @ tail) @ s)
             = (CHR ''['' # t @ tail) @ replaceFolderLinks old new s"
    by (rule replaceFolderLinks_text)
       (use inside_reference [OF t(1) x tail] in auto)
  show ?thesis using m1 r tl by simp
qed

lemma replaceFolderLinks_prefix:
  assumes old: "old \<noteq> []" "CHR ''['' \<notin> set old"
    and inner: "CHR '']'' \<notin> set inner"
  shows "replaceFolderLinks old new (''[['' @ old @ inner @ '']]'' @ s)
           = ''[['' @ new @ inner @ '']]'' @ replaceFolderLinks old new s"
  using matchFolderLink_inner [OF inner, of old s]
    replaceFirst_at_two [OF old, of new "inner @ '']]''"]
  by simp

lemma replaceFolderLinks_render_append:
  assumes "literalPattern old" "old \<noteq> []" "\<forall>seg \<in> set segs. wellFormedSegment seg"
  shows "replaceFolderLinks old new (render segs @ s)
           = render (map (retargetPrefix old new) segs) @ replaceFolderLinks old new s"
  using assms(3)
proof (induction segs)
  case Nil
  then show ?case by (simp add: render_def)
next
  case (Cons seg segs)
  note o = literalPattern_chars [OF assms(1)]
  from Cons have IH: "replaceFolderLinks old new (render segs @ s)
      = render (map (retargetPrefix old new) segs) @ replaceFolderLinks old new s"
    and wf: "wellFormedSegment seg" by auto
  show ?case
  proof (cases seg)
    case (Text t)
    then show ?thesis using wf IH by (simp add: render_Cons replaceFolderLinks_text)
  next
    case (Link target al)
    have t: "CHR '']'' \<notin> set target" "CHR ''|'' \<notin> set target" "CHR ''['' \<notin> set target"
      using wf Link by auto
    show ?thesis
    proof (cases "stripPrefix old target")
      case (Some rest)
      note sp = Some
      then have tr: "target = old @ rest" by (simp add: stripPrefix_Some_iff)
      then have rest: "CHR '']'' \<notin> set rest" using t by auto
      show ?thesis
      proof (cases al)
        case None
        have "replaceFolderLinks old new (''[['' @ old @ rest @ '']]'' @ (render segs @ s))
            = ''[['' @ new @ rest @ '']]'' @ replaceFolderLinks old new (render segs @ s)"
          by (rule replaceFolderLinks_prefix) (use assms(2) o rest in auto)
        then show ?thesis using Link sp tr None IH by (simp add: render_Cons)
      next
        case (Some a)
        then have a: "CHR '']'' \<notin> set a" using wf Link by auto
        have "replaceFolderLinks old new
                (''[['' @ old @ (rest @ ''|'' @ a) @ '']]'' @ (render segs @ s))
            = ''[['' @ new @ (rest @ ''|'' @ a) @ '']]''
                @ replaceFolderLinks old new (render segs @ s)"
          by (rule replaceFolderLinks_prefix) (use assms(2) o rest a in auto)
        then show ?thesis using Link sp tr Some IH by (simp add: render_Cons)
      qed
    next
      case None
      note np = None
      show ?thesis
      proof (cases al)
        case None
        have "replaceFolderLinks old new (''[['' @ target @ '']]'' @ (render segs @ s))
            = ''[['' @ target @ '']]'' @ replaceFolderLinks old new (render segs @ s)"
          by (rule replaceFolderLinks_other [where x = "'']''"]) (use o t np in auto)
        then show ?thesis using Link np None IH by (simp add: render_Cons)
      next
        case (Some a)
        then have a: "\<not> hasOpening (a @ '']]'')"
          using wf Link by (auto simp: hasOpening_append)
        have "replaceFolderLinks old new
                (''[['' @ target @ (''|'' @ a @ '']]'') @ (render segs @ s))
            = ''[['' @ target @ (''|'' @ a @ '']]'')
                @ replaceFolderLinks old new (render segs @ s)"
          by (rule replaceFolderLinks_other [where x = "a @ '']]''"]) (use o t np a in auto)
        then show ?thesis using Link np Some IH by (simp add: render_Cons)
      qed
    qed
  qed
qed

lemma replaceFolderLinks_render:
  assumes "literalPattern old" "old \<noteq> []" "\<forall>seg \<in> set segs. wellFormedSegment seg"
  shows "replaceFolderLinks old new (render segs) = render (map (retargetPrefix old new) segs)"
  using replaceFolderLinks_render_append [OF assms, of new "[]"] by simp

lemma render_append: "render (xs @ ys) = render xs @ render ys"
  by (simp add: render_def)

lemma replaceFolderLinks_empty:
  assumes "CHR '']'' \<notin> set inner"
  shows "replaceFolderLinks [] new (''[['' @ inner @ '']]'' @ s)
           = new @ ''[['' @ inner @ '']]'' @ replaceFolderLinks [] new s"
  using matchFolderLink_inner [OF assms, of "[]" s] by simp

lemma replaceFolderLinks_empty_render_append:
  assumes "\<forall>seg \<in> set segs. wellFormedSegment seg"
  shows "replaceFolderLinks [] new (render segs @ s)
           = render (concat (map (prefixed new) segs)) @ replaceFolderLinks [] new s"
  using assms
proof (induction segs)
  case Nil
  then show ?case by (simp add: render_def)
next
  case (Cons seg segs)
  then have IH: "replaceFolderLinks [] new (render segs @ s)
      = render (concat (map (prefixed new) segs)) @ replaceFolderLinks [] new s"
    and wf: "wellFormedSegment seg" by auto
  show ?case
  proof (cases seg)
    case (Text t)
    then show ?thesis
      using wf IH by (simp add: render_Cons render_append replaceFolderLinks_text)
  next
    case (Link target al)
    have t: "CHR '']'' \<notin> set target" using wf Link by auto
    show ?thesis
    proof (cases al)
      case None
      have "replaceFolderLinks [] new (''[['' @ target @ '']]'' @ (render segs @ s))
          = new @ ''[['' @ target @ '']]'' @ replaceFolderLinks [] new (render segs @ s)"
        by (rule replaceFolderLinks_empty [OF t])
      then show ?thesis using Link None IH by (simp add: render_Cons render_append)
    next
      case (Some a)
      then have a: "CHR '']'' \<notin> set (target @ ''|'' @ a)" using wf Link t by auto
      have "replaceFolderLinks [] new (''[['' @ (target @ ''|'' @ a) @ '']]'' @ (render segs @ s))
          = new @ ''[['' @ (target @ ''|'' @ a) @ '']]''
              @ replaceFolderLinks [] new (render segs @ s)"
        by (rule replaceFolderLinks_empty [OF a])
      then show ?thesis using Link Some IH by (simp add: render_Cons render_append)
    qed
  qed
qed

lemma replaceFolderLinks_empty_render:
  assumes "\<forall>seg \<in> set segs. wellFormedSegment seg"
  shows "replaceFolderLinks [] new (render segs) = render (concat (map (prefixed new) segs))"
  using replaceFolderLinks_empty_render_append [OF assms, of new "[]"] by simp

section \<open>Facts about the file system calls\<close>

lemma accesses_logged [simp]: "accesses (logged a w) = accesses w @ [a]"
  and fails_logged [simp]: "fails (logged a w) = fails w"
  and disk_logged [simp]: "disk (logged a w) = disk w"
  and clock_logged [simp]: "clock (logged a w) = clock w"
  and ticks_logged [simp]: "ticks (logged a w) = ticks w"
  and serialized_logged [simp]: "serialized (logged a w) = serialized w"
  by (simp_all add: logged_def)

lemma listMarkdownFiles_result [simp]:
  "fst (listMarkdownFiles dir tree w) = getAllMarkdownFiles dir tree"
  by (simp add: listMarkdownFiles_def)

lemma listMarkdownFiles_world [simp]:
  "disk (snd (listMarkdownFiles dir tree w)) = disk w"
  "fails (snd (listMarkdownFiles dir tree w)) = fails w"
  "clock (snd (listMarkdownFiles dir tree w)) = clock w"
  "ticks (snd (listMarkdownFiles dir tree w)) = ticks w"
  "serialized (snd (listMarkdownFiles dir tree w)) = serialized w"
  "accesses (snd (listMarkdownFiles dir tree w)) = accesses w @ readdirCalls dir tree"
  by (simp_all add: listMarkdownFiles_def)

lemma listMarkdownFiles_eq:
  "listMarkdownFiles dir tree w = (getAllMarkdownFiles dir tree, snd (listMarkdownFiles dir tree w))"
  by (simp add: listMarkdownFiles_def)

lemma readdirCalls_kind:
  "set (readdirCalls dir tree) \<subseteq> range Readdir"
  "set (readdirCallsIn dir entries) \<subseteq> range Readdir"
proof (induction dir tree and dir entries rule: readdirCalls_readdirCallsIn.induct)
  case (6 dir name entry rest)
  show ?case
  proof (cases "isDirectory entry")
    case False
    then show ?thesis using 6 by simp
  next
    case True
    show ?thesis
    proof (cases "getAllMarkdownFiles (path_join [dir, name]) entry")
      case (Inl e)
      then show ?thesis using True 6(1) by simp
    next
      case (Inr sub)
      then show ?thesis using True 6(1) 6(2) [OF True Inr] by simp
    qed
  qed
qed simp_all

lemma readdirCalls_no_file [simp]:
  "ReadFile p \<notin> set (readdirCalls dir tree)" "WriteFile p \<notin> set (readdirCalls dir tree)"
  using readdirCalls_kind(1) [of dir tree] by auto

lemma newAccesses_self [simp]: "newAccesses w w = []"
  by (simp add: newAccesses_def)

lemma newAccesses_append:
  "accesses w' = accesses w @ xs \<Longrightarrow> newAccesses w w' = xs"
  by (simp add: newAccesses_def)

lemma fs_readFile_cases:
  obtains (fail) "fs_readFile p w = (Inl (EIO p), logged (ReadFile p) w)" "ReadFile p \<in> fails w"
  | (missing) "fs_readFile p w = (Inl (ENOENT p), logged (ReadFile p) w)"
      "ReadFile p \<notin> fails w" "disk w p = None"
  | (found) c where "fs_readFile p w = (Inr c, logged (ReadFile p) w)"
      "ReadFile p \<notin> fails w" "disk w p = Some c"
  by (cases "disk w p") (auto simp: fs_readFile_def)

lemma fs_readFile_world: "snd (fs_readFile p w) = logged (ReadFile p) w"
  by (rule fs_readFile_cases [of p w]) auto

lemma fs_writeFile_cases:
  obtains (fail) "fs_writeFile p text w = (Inl (EIO p), logged (WriteFile p) w)"
      "WriteFile p \<in> fails w"
  | (written) "fs_writeFile p text w
        = (Inr (), logged (WriteFile p) (w\<lparr>disk := (disk w)(p \<mapsto> text)\<rparr>))"
      "WriteFile p \<notin> fails w"
  by (auto simp: fs_writeFile_def)

lemma fs_unlink_accesses: "accesses (snd (fs_unlink p w)) = accesses w @ [Unlink p]"
  by (auto simp: fs_unlink_def split: option.splits)

lemma fs_access_accesses: "accesses (snd (fs_access p w)) = accesses w @ [Access p]"
  by (auto simp: fs_access_def split: option.splits)

lemma fs_mkdir_accesses: "accesses (snd (fs_mkdir p w)) = accesses w @ [Mkdir p]"
  by (auto simp: fs_mkdir_def)

lemma fs_writeFile_accesses: "accesses (snd (fs_writeFile p text w)) = accesses w @ [WriteFile p]"
  by (auto simp: fs_writeFile_def)

lemma newDate_accesses: "accesses (snd (newDate w)) = accesses w"
  by (simp add: newDate_def)

lemma writeNote_accesses:
  "accesses (snd (writeNote gm p body fm w)) = accesses w \<or>
   accesses (snd (writeNote gm p body fm w)) = accesses w @ [WriteFile p]"
  by (auto simp: writeNote_def andThen_def fs_writeFile_def split: sum.splits)

lemma snd_rethrow [simp]: "snd (rethrow f r) = snd r"
  by (cases r) (auto simp: rethrow_def split: sum.splits)

lemma snd_andThen_return: "(\<And>a w. snd (f a w) = w) \<Longrightarrow> snd (andThen r f) = snd r"
  by (cases r) (auto simp: andThen_def split: sum.splits)

lemma andThen_Inl [simp]: "andThen (Inl e, w) f = (Inl e, w)"
  and andThen_Inr [simp]: "andThen (Inr a, w) f = f a w"
  by (simp_all add: andThen_def)


lemma map_of_setKey: "map_of (setKey k v fm) = (map_of fm)(k \<mapsto> v)"
  by (induction fm) (auto simp: fun_upd_twist)

lemma getKey_setKey: "getKey (setKey k v fm) k' = (if k' = k then v else getKey fm k')"
  by (simp add: getKey_def map_of_setKey)

section \<open>Facts about the loop of the link rewriters\<close>

lemma rewriteFiles_append:
  "rewriteFiles replace (pre @ rest) w =
     (case rewriteFiles replace pre w of
        (Inl e, w1) \<Rightarrow> (Inl e, w1)
      | (Inr u, w1) \<Rightarrow> rewriteFiles replace rest w1)"
  by (induction pre arbitrary: w) (auto simp: Let_def split: prod.splits sum.splits)

lemma rewriteFiles_step:
  obtains (unread) e where "fs_readFile doc w = (Inl e, logged (ReadFile doc) w)"
      "rewriteFiles replace (doc # rest) w = (Inl e, logged (ReadFile doc) w)"
  | (same) c where "disk w doc = Some c" "ReadFile doc \<notin> fails w" "replace c = c"
      "rewriteFiles replace (doc # rest) w
         = rewriteFiles replace rest (logged (ReadFile doc) w)"
  | (unwritten) c where "disk w doc = Some c" "ReadFile doc \<notin> fails w" "replace c \<noteq> c"
      "WriteFile doc \<in> fails w"
      "rewriteFiles replace (doc # rest) w
         = (Inl (EIO doc), logged (WriteFile doc) (logged (ReadFile doc) w))"
  | (written) c where "disk w doc = Some c" "ReadFile doc \<notin> fails w" "replace c \<noteq> c"
      "WriteFile doc \<notin> fails w"
      "rewriteFiles replace (doc # rest) w
         = rewriteFiles replace rest
             (logged (WriteFile doc)
                (logged (ReadFile doc) w\<lparr>disk := (disk w)(doc \<mapsto> replace c)\<rparr>))"
proof (cases rule: fs_readFile_cases [of doc w])
  case fail
  then show ?thesis using unread by simp
next
  case missing
  then show ?thesis using unread by simp
next
  case (found c)
  show ?thesis
  proof (cases "replace c = c")
    case True
    then show ?thesis using found same [of c] by (simp add: Let_def)
  next
    case False
    show ?thesis
    proof (cases "WriteFile doc \<in> fails w")
      case True
      then show ?thesis
        using found False unwritten [of c] by (simp add: Let_def fs_writeFile_def)
    next
      case wf: False
      then show ?thesis
        using found False written [of c] by (simp add: Let_def fs_writeFile_def logged_def)
    qed
  qed
qed

lemma rewriteFiles_trace:
  assumes "distinct allFiles"
  shows "\<exists>xs. accesses (snd (rewriteFiles replace allFiles w)) = accesses w @ xs \<and>
           fails (snd (rewriteFiles replace allFiles w)) = fails w \<and>
           (\<forall>p. WriteFile p \<in> set xs \<longrightarrow>
                  p \<in> set allFiles \<and> (\<exists>c. disk w p = Some c \<and> replace c \<noteq> c)) \<and>
           (\<forall>p. disk (snd (rewriteFiles replace allFiles w)) p = disk w p \<or>
                  (WriteFile p \<in> set xs \<and>
                   (\<exists>c. disk w p = Some c \<and>
                        disk (snd (rewriteFiles replace allFiles w)) p = Some (replace c)))) \<and>
           (fst (rewriteFiles replace allFiles w) = Inr () \<longrightarrow>
              (\<forall>f \<in> set allFiles. \<exists>c. disk w f = Some c \<and>
                  disk (snd (rewriteFiles replace allFiles w)) f = Some (replace c) \<and>
                  (replace c \<noteq> c \<longrightarrow> WriteFile f \<in> set xs)))"
  using assms
proof (induction allFiles arbitrary: w)
  case Nil
  then show ?case by simp
next
  case (Cons doc rest)
  then have nin: "doc \<notin> set rest" and d: "distinct rest" by auto
  show ?case
  proof (cases rule: rewriteFiles_step [of doc w replace rest])
    case (unread e)
    then show ?thesis by simp
  next
    case (unwritten c)
    then show ?thesis by simp
  next
    case (same c)
    let ?w1 = "logged (ReadFile doc) w"
    let ?w' = "snd (rewriteFiles replace rest ?w1)"
    from Cons.IH [OF d, of ?w1] obtain xs where
      acc: "accesses ?w' = accesses ?w1 @ xs" and
      fl: "fails ?w' = fails ?w1" and
      wr: "\<And>p. WriteFile p \<in> set xs \<Longrightarrow>
              p \<in> set rest \<and> (\<exists>c. disk ?w1 p = Some c \<and> replace c \<noteq> c)" and
      dk: "\<And>p. disk ?w' p = disk ?w1 p \<or>
              (WriteFile p \<in> set xs \<and> (\<exists>c. disk ?w1 p = Some c \<and> disk ?w' p = Some (replace c)))" and
      ok: "fst (rewriteFiles replace rest ?w1) = Inr () \<Longrightarrow>
              (\<forall>f \<in> set rest. \<exists>c. disk ?w1 f = Some c \<and> disk ?w' f = Some (replace c) \<and>
                  (replace c \<noteq> c \<longrightarrow> WriteFile f \<in> set xs))"
      by blast
    have self: "disk ?w' doc = Some c"
      using dk [of doc] wr [of doc] nin same(1) by auto
    show ?thesis
    proof (intro exI [of _ "ReadFile doc # xs"] conjI allI impI ballI)
      show "accesses (snd (rewriteFiles replace (doc # rest) w)) = accesses w @ ReadFile doc # xs"
        using same(4) acc by simp
      show "fails (snd (rewriteFiles replace (doc # rest) w)) = fails w"
        using same(4) fl by simp
    next
      fix p assume "WriteFile p \<in> set (ReadFile doc # xs)"
      then show "p \<in> set (doc # rest)" "\<exists>c. disk w p = Some c \<and> replace c \<noteq> c"
        using wr [of p] by auto
    next
      fix p
      show "disk (snd (rewriteFiles replace (doc # rest) w)) p = disk w p \<or>
            (WriteFile p \<in> set (ReadFile doc # xs) \<and>
             (\<exists>c. disk w p = Some c \<and>
                  disk (snd (rewriteFiles replace (doc # rest) w)) p = Some (replace c)))"
        using dk [of p] same(4) by auto
    next
      fix f
      assume r: "fst (rewriteFiles replace (doc # rest) w) = Inr ()"
        and f: "f \<in> set (doc # rest)"
      show "\<exists>c. disk w f = Some c \<and>
              disk (snd (rewriteFiles replace (doc # rest) w)) f = Some (replace c) \<and>
              (replace c \<noteq> c \<longrightarrow> WriteFile f \<in> set (ReadFile doc # xs))"
      proof (cases "f = doc")
        case True
        then show ?thesis using same self by simp
      next
        case False
        then have "f \<in> set rest" using f by simp
        then show ?thesis using ok r same(4) by auto
      qed
    qed
  next
    case (written c)
    let ?w1 = "logged (WriteFile doc)
                 (logged (ReadFile doc) w\<lparr>disk := (disk w)(doc \<mapsto> replace c)\<rparr>)"
    let ?w' = "snd (rewriteFiles replace rest ?w1)"
    from Cons.IH [OF d, of ?w1] obtain xs where
      acc: "accesses ?w' = accesses ?w1 @ xs" and
      fl: "fails ?w' = fails ?w1" and
      wr: "\<And>p. WriteFile p \<in> set xs \<Longrightarrow>
              p \<in> set rest \<and> (\<exists>c. disk ?w1 p = Some c \<and> replace c \<noteq> c)" and
      dk: "\<And>p. disk ?w' p = disk ?w1 p \<or>
              (WriteFile p \<in> set xs \<and> (\<exists>c. disk ?w1 p = Some c \<and> disk ?w' p = Some (replace c)))" and
      ok: "fst (rewriteFiles replace rest ?w1) = Inr () \<Longrightarrow>
              (\<forall>f \<in> set rest. \<exists>c. disk ?w1 f = Some c \<and> disk ?w' f = Some (replace c) \<and>
                  (replace c \<noteq> c \<longrightarrow> WriteFile f \<in> set xs))"
      by blast
    have d1: "disk ?w1 p = (if p = doc then Some (replace c) else disk w p)" for p
      by simp
    have self: "disk ?w' doc = Some (replace c)"
      using dk [of doc] wr [of doc] nin by auto
    show ?thesis
    proof (intro exI [of _ "ReadFile doc # WriteFile doc # xs"] conjI allI impI ballI)
      show "accesses (snd (rewriteFiles replace (doc # rest) w))
              = accesses w @ ReadFile doc # WriteFile doc # xs"
        using written(5) acc by simp
      show "fails (snd (rewriteFiles replace (doc # rest) w)) = fails w"
        using written(5) fl by simp
    next
      fix p assume p: "WriteFile p \<in> set (ReadFile doc # WriteFile doc # xs)"
      show "p \<in> set (doc # rest)"
        using p wr [of p] by auto
      show "\<exists>c. disk w p = Some c \<and> replace c \<noteq> c"
      proof (cases "p = doc")
        case True
        then show ?thesis using written by simp
      next
        case False
        then show ?thesis using p wr [of p] d1 [of p] by auto
      qed
    next
      fix p
      show "disk (snd (rewriteFiles replace (doc # rest) w)) p = disk w p \<or>
            (WriteFile p \<in> set (ReadFile doc # WriteFile doc # xs) \<and>
             (\<exists>c. disk w p = Some c \<and>
                  disk (snd (rewriteFiles replace (doc # rest) w)) p = Some (replace c)))"
      proof (cases "p = doc")
        case True
        then show ?thesis using self written by simp
      next
        case False
        then show ?thesis using dk [of p] d1 [of p] written(5) by auto
      qed
    next
      fix f
      assume r: "fst (rewriteFiles replace (doc # rest) w) = Inr ()"
        and f: "f \<in> set (doc # rest)"
      show "\<exists>c. disk w f = Some c \<and>
              disk (snd (rewriteFiles replace (doc # rest) w)) f = Some (replace c) \<and>
              (replace c \<noteq> c \<longrightarrow> WriteFile f \<in> set (ReadFile doc # WriteFile doc # xs))"
      proof (cases "f = doc")
        case True
        then show ?thesis using written self by simp
      next
        case False
        then have fr: "f \<in> set rest" using f by simp
        have "fst (rewriteFiles replace rest ?w1) = Inr ()" using r written(5) by simp
        from ok [OF this] fr obtain c' where
          "disk ?w1 f = Some c'" "disk ?w' f = Some (replace c')"
          "replace c' \<noteq> c' \<longrightarrow> WriteFile f \<in> set xs" by blast
        then show ?thesis using False d1 [of f] written(5) by auto
      qed
    qed
  qed
qed

lemma rewriteFiles_completes:
  assumes "\<forall>f \<in> set allFiles. ReadFile f \<notin> fails w \<and> WriteFile f \<notin> fails w \<and> disk w f \<noteq> None"
  shows "fst (rewriteFiles replace allFiles w) = Inr ()"
  using assms
proof (induction allFiles arbitrary: w)
  case Nil
  then show ?case by simp
next
  case (Cons doc rest)
  show ?case
  proof (cases rule: rewriteFiles_step [of doc w replace rest])
    case (unread e)
    then show ?thesis using Cons.prems by (auto simp: fs_readFile_def split: option.splits)
  next
    case (unwritten c)
    then show ?thesis using Cons.prems by simp
  next
    case (same c)
    have "fst (rewriteFiles replace rest (logged (ReadFile doc) w)) = Inr ()"
      by (rule Cons.IH) (use Cons.prems in simp)
    then show ?thesis using same by simp
  next
    case (written c)
    have "fst (rewriteFiles replace rest
                 (logged (WriteFile doc)
                    (logged (ReadFile doc) w\<lparr>disk := (disk w)(doc \<mapsto> replace c)\<rparr>))) = Inr ()"
      by (rule Cons.IH) (use Cons.prems in simp)
    then show ?thesis using written by simp
  qed
qed

lemma rewriteFiles_accesses:
  "\<exists>xs. accesses (snd (rewriteFiles replace allFiles w)) = accesses w @ xs \<and>
        set xs \<subseteq> ReadFile ` set allFiles \<union> WriteFile ` set allFiles"
proof (induction allFiles arbitrary: w)
  case Nil
  then show ?case by simp
next
  case (Cons doc rest)
  show ?case
  proof (cases rule: rewriteFiles_step [of doc w replace rest])
    case (unread e)
    then show ?thesis by simp
  next
    case (unwritten c)
    then show ?thesis by simp
  next
    case (same c)
    obtain xs where "accesses (snd (rewriteFiles replace rest (logged (ReadFile doc) w)))
                       = accesses (logged (ReadFile doc) w) @ xs"
      "set xs \<subseteq> ReadFile ` set rest \<union> WriteFile ` set rest"
      using Cons.IH [of "logged (ReadFile doc) w"] by blast
    then show ?thesis
      using same(4) by (intro exI [of _ "ReadFile doc # xs"]) auto
  next
    case (written c)
    let ?w1 = "logged (WriteFile doc)
                 (logged (ReadFile doc) w\<lparr>disk := (disk w)(doc \<mapsto> replace c)\<rparr>)"
    obtain xs where "accesses (snd (rewriteFiles replace rest ?w1)) = accesses ?w1 @ xs"
      "set xs \<subseteq> ReadFile ` set rest \<union> WriteFile ` set rest"
      using Cons.IH [of ?w1] by blast
    then show ?thesis
      using written(5) by (intro exI [of _ "ReadFile doc # WriteFile doc # xs"]) auto
  qed
qed

lemma rewriteFiles_reaches:
  assumes "distinct (pre @ doc # post)"
    and "\<forall>f \<in> set (pre @ [doc]).
           ReadFile f \<notin> fails w \<and> WriteFile f \<notin> fails w \<and> disk w f \<noteq> None"
    and "disk w doc = Some c"
  shows "disk (snd (rewriteFiles replace (pre @ doc # post) w)) doc = Some (replace c) \<and>
         (replace c \<noteq> c \<longrightarrow>
            WriteFile doc \<in> set (newAccesses w (snd (rewriteFiles replace (pre @ doc # post) w))))"
proof -
  let ?front = "pre @ [doc]"
  obtain w1 where front: "rewriteFiles replace ?front w = (Inr (), w1)"
    using rewriteFiles_completes [OF assms(2), of replace]
    by (cases "rewriteFiles replace ?front w") auto
  have d1: "distinct ?front" and d2: "distinct post" and nin: "doc \<notin> set post"
    using assms(1) by auto
  from rewriteFiles_trace [OF d1, of replace w] front obtain xs1 where
    a1: "accesses w1 = accesses w @ xs1" and
    ok1: "\<forall>f \<in> set ?front. \<exists>c. disk w f = Some c \<and> disk w1 f = Some (replace c) \<and>
             (replace c \<noteq> c \<longrightarrow> WriteFile f \<in> set xs1)"
    by auto
  have doc1: "disk w1 doc = Some (replace c)" "replace c \<noteq> c \<longrightarrow> WriteFile doc \<in> set xs1"
    using ok1 assms(3) by auto
  let ?w2 = "snd (rewriteFiles replace post w1)"
  from rewriteFiles_trace [OF d2, of replace w1] obtain xs2 where
    a2: "accesses ?w2 = accesses w1 @ xs2" and
    wr2: "\<And>p. WriteFile p \<in> set xs2 \<Longrightarrow> p \<in> set post" and
    dk2: "\<And>p. disk ?w2 p = disk w1 p \<or> WriteFile p \<in> set xs2"
    by blast
  have whole: "snd (rewriteFiles replace (pre @ doc # post) w) = ?w2"
    using rewriteFiles_append [of replace ?front post w] front by simp
  have "disk ?w2 doc = Some (replace c)"
    using dk2 [of doc] wr2 [of doc] nin doc1(1) by auto
  moreover have "newAccesses w ?w2 = xs1 @ xs2"
    using a1 a2 by (intro newAccesses_append) simp
  ultimately show ?thesis using whole doc1(2) by simp
qed

lemma rewriteFiles_timeline:
  "clock (snd (rewriteFiles replace allFiles w)) = clock w \<and>
   ticks (snd (rewriteFiles replace allFiles w)) = ticks w \<and>
   serialized (snd (rewriteFiles replace allFiles w)) = serialized w"
proof (induction allFiles arbitrary: w)
  case Nil
  then show ?case by simp
next
  case (Cons doc rest)
  show ?case
  proof (cases rule: rewriteFiles_step [of doc w replace rest])
    case (unread e)
    then show ?thesis by simp
  next
    case (unwritten c)
    then show ?thesis by simp
  next
    case (same c)
    then show ?thesis using Cons.IH [of "logged (ReadFile doc) w"] by simp
  next
    case (written c)
    then show ?thesis
      using Cons.IH [of "logged (WriteFile doc)
                           (logged (ReadFile doc) w\<lparr>disk := (disk w)(doc \<mapsto> replace c)\<rparr>)"]
      by simp
  qed
qed

section \<open>Facts about the loop of the tag operations\<close>

lemma writeNote_cases:
  obtains (unserialized) e where "stringify gm body fm = Inl e"
      "writeNote gm p body fm w = (Inl e, w)"
  | (unwritten) text' where "stringify gm body fm = Inr text'" "WriteFile p \<in> fails w"
      "writeNote gm p body fm w = (Inl (EIO p), logged (WriteFile p) w)"
  | (written) text' where "stringify gm body fm = Inr text'" "WriteFile p \<notin> fails w"
      "writeNote gm p body fm w
         = (Inr (), (logged (WriteFile p) (w\<lparr>disk := (disk w)(p \<mapsto> text')\<rparr>))
                      \<lparr>serialized := serialized w @ [(p, fm)]\<rparr>)"
proof (cases "stringify gm body fm")
  case (Inl e)
  then show ?thesis using unserialized by (simp add: writeNote_def)
next
  case (Inr text')
  show ?thesis
  proof (cases "WriteFile p \<in> fails w")
    case True
    then show ?thesis using Inr unwritten by (simp add: writeNote_def fs_writeFile_def)
  next
    case False
    then show ?thesis using Inr written by (simp add: writeNote_def fs_writeFile_def)
  qed
qed

lemma tagLoop_step:
  obtains (stopped) e w1 where
      "tagLoop gm vaultPath edit [doc] updatedNotes w = (Inl e, w1)"
      "\<And>rest. tagLoop gm vaultPath edit (doc # rest) updatedNotes w = (Inl e, w1)"
      "clock w1 = clock w" "ticks w \<le> ticks w1" "serialized w1 = serialized w"
  | (untouched) content fm body tags where
      "disk w (path_join [vaultPath, doc]) = Some content" "matter gm content = Inr (fm, body)"
      "newSet (orElse (getKey fm ''tags'') (Arr [])) = Inr tags" "edit tags = None"
      "\<And>rest. tagLoop gm vaultPath edit (doc # rest) updatedNotes w
         = tagLoop gm vaultPath edit rest updatedNotes
             (logged (ReadFile (path_join [vaultPath, doc])) w)"
  | (edited) content fm body tags tags' text' where
      "disk w (path_join [vaultPath, doc]) = Some content" "matter gm content = Inr (fm, body)"
      "newSet (orElse (getKey fm ''tags'') (Arr [])) = Inr tags" "edit tags = Some tags'"
      "stringify gm body
         (setKey ''modified'' (Str (clock w (ticks w)))
            (setKey ''tags'' (Arr tags') (spread [] fm))) = Inr text'"
      "\<And>rest. tagLoop gm vaultPath edit (doc # rest) updatedNotes w
         = tagLoop gm vaultPath edit rest (updatedNotes @ [doc])
             (w\<lparr> ticks := Suc (ticks w),
                 disk := (disk w)(path_join [vaultPath, doc] \<mapsto> text'),
                 accesses := accesses w @ [ReadFile (path_join [vaultPath, doc]),
                                           WriteFile (path_join [vaultPath, doc])],
                 serialized := serialized w @
                   [(path_join [vaultPath, doc],
                     setKey ''modified'' (Str (clock w (ticks w)))
                       (setKey ''tags'' (Arr tags') (spread [] fm)))] \<rparr>)"
proof -
  let ?p = "path_join [vaultPath, doc]"
  show ?thesis
  proof (cases rule: fs_readFile_cases [of ?p w])
    case fail
    then show ?thesis using stopped by (simp add: Let_def)
  next
    case missing
    then show ?thesis using stopped by (simp add: Let_def)
  next
    case (found content)
    show ?thesis
    proof (cases "matter gm content")
      case (Inl e)
      then show ?thesis using found stopped by (simp add: Let_def)
    next
      case (Inr parsed)
      obtain fm body where parsed: "parsed = (fm, body)" by (cases parsed)
      show ?thesis
      proof (cases "newSet (orElse (getKey fm ''tags'') (Arr []))")
        case (Inl e)
        then show ?thesis using found Inr parsed stopped by (simp add: Let_def)
      next
        case tg: (Inr tags)
        show ?thesis
        proof (cases "edit tags")
          case None
          then show ?thesis
            using found Inr parsed tg untouched [of content fm body tags]
            by (simp add: Let_def)
        next
          case (Some tags')
          let ?fm = "setKey ''modified'' (Str (clock w (ticks w)))
                       (setKey ''tags'' (Arr tags') (spread [] fm))"
          let ?w2 = "logged (ReadFile ?p) w\<lparr>ticks := Suc (ticks w)\<rparr>"
          have nd: "newDate (logged (ReadFile ?p) w) = (clock w (ticks w), ?w2)"
            by (simp add: newDate_def)
          show ?thesis
          proof (cases rule: writeNote_cases [of gm body ?fm ?p ?w2])
            case (unserialized e)
            then show ?thesis using found Inr parsed tg Some nd stopped
              by (simp add: Let_def)
          next
            case (unwritten text')
            then show ?thesis using found Inr parsed tg Some nd stopped
              by (simp add: Let_def)
          next
            case (written text')
            have "tagLoop gm vaultPath edit (doc # rest) updatedNotes w
                    = tagLoop gm vaultPath edit rest (updatedNotes @ [doc])
                        (w\<lparr> ticks := Suc (ticks w),
                            disk := (disk w)(?p \<mapsto> text'),
                            accesses := accesses w @ [ReadFile ?p, WriteFile ?p],
                            serialized := serialized w @ [(?p, ?fm)] \<rparr>)" for rest
              using found Inr parsed tg Some nd written
              by (simp add: Let_def logged_def)
            then show ?thesis
              using found(3) Inr parsed tg Some written(1) edited [of content fm body tags tags' text']
              by blast
          qed
        qed
      qed
    qed
  qed
qed

lemma tagLoop_append:
  "tagLoop gm vaultPath edit (pre @ rest) updatedNotes w =
     (case tagLoop gm vaultPath edit pre updatedNotes w of
        (Inl e, w1) \<Rightarrow> (Inl e, w1)
      | (Inr updated, w1) \<Rightarrow> tagLoop gm vaultPath edit rest updated w1)"
proof (induction pre arbitrary: updatedNotes w)
  case Nil
  then show ?case by simp
next
  case (Cons doc pre)
  show ?case
  proof (cases rule: tagLoop_step [of gm vaultPath edit doc updatedNotes w])
    case (stopped e w1)
    then show ?thesis by simp
  next
    case (untouched content fm body tags)
    then show ?thesis using Cons.IH by simp
  next
    case (edited content fm body tags tags' text')
    then show ?thesis using Cons.IH by simp
  qed
qed

section \<open>Facts about the set of tags\<close>

lemma set_foldl_setAdd: "set (foldl setAdd acc xs) = set acc \<union> set xs"
  by (induction xs arbitrary: acc) (auto simp: setAdd_def)

lemma distinct_foldl_setAdd: "distinct acc \<Longrightarrow> distinct (foldl setAdd acc xs)"
  by (induction xs arbitrary: acc) (auto simp: setAdd_def)

lemma newSet_distinct: "newSet v = Inr tags \<Longrightarrow> distinct tags"
  by (cases v) (auto simp: newSet_def distinct_foldl_setAdd)

lemma newSet_tags:
  "newSet (orElse (Arr tags) (Arr [])) = Inr (foldl setAdd [] tags)"
  by (simp add: newSet_def orElse_def)

lemma addEdit_distinct: "distinct tags \<Longrightarrow> addEdit tag tags = Some tags' \<Longrightarrow> distinct tags'"
  by (auto simp: addEdit_def setAdd_def split: if_splits)

lemma removeEdit_distinct: "distinct tags \<Longrightarrow> removeEdit tag tags = Some tags' \<Longrightarrow> distinct tags'"
  by (auto simp: removeEdit_def setDelete_def split: if_splits)

lemma renameEdit_distinct:
  "distinct tags \<Longrightarrow> renameEdit oldTag newTag tags = Some tags' \<Longrightarrow> distinct tags'"
  by (auto simp: renameEdit_def setDelete_def setAdd_def split: if_splits)

lemma count_list_one: "distinct xs \<Longrightarrow> x \<in> set xs \<Longrightarrow> count_list xs x = 1"
  by (induction xs) (auto simp: count_list_0_iff)

lemma renameEdit_result:
  assumes "distinct tags" "oldTag \<in> set tags" "oldTag \<noteq> newTag"
  shows "renameEdit oldTag newTag tags
           = Some (if newTag \<in> set tags then filter (\<lambda>t. t \<noteq> oldTag) tags
                   else filter (\<lambda>t. t \<noteq> oldTag) tags @ [newTag])"
  using assms by (auto simp: renameEdit_def setDelete_def setAdd_def)

lemma renamed_properties:
  assumes "distinct tags" "oldTag \<noteq> newTag"
    and "renamed = (if newTag \<in> set tags then filter (\<lambda>t. t \<noteq> oldTag) tags
                    else filter (\<lambda>t. t \<noteq> oldTag) tags @ [newTag])"
  shows "oldTag \<notin> set renamed \<and> count_list renamed newTag = 1 \<and> distinct renamed \<and>
         filter (\<lambda>t. t \<noteq> newTag) renamed = filter (\<lambda>t. t \<noteq> oldTag \<and> t \<noteq> newTag) tags"
proof -
  have d: "distinct renamed" using assms by auto
  have n: "newTag \<in> set renamed" using assms by auto
  have f: "filter (\<lambda>t. t \<noteq> newTag) renamed = filter (\<lambda>t. t \<noteq> oldTag \<and> t \<noteq> newTag) tags"
    using assms(3) by (auto simp: conj_commute)
  show ?thesis using d n f assms(2,3) by (auto simp: count_list_one)
qed

section \<open>What a tag operation that returns has done to a note\<close>

lemma tagLoop_frame:
  assumes "tagLoop gm vaultPath edit allFiles updatedNotes w = (Inr updated, w')"
  shows "(\<exists>es. serialized w' = serialized w @ es) \<and>
         (\<exists>added. updated = updatedNotes @ added) \<and>
         (\<forall>q. q \<notin> (\<lambda>f. path_join [vaultPath, f]) ` set allFiles \<longrightarrow> disk w' q = disk w q)"
  using assms
proof (induction allFiles arbitrary: updatedNotes w)
  case Nil
  then show ?case by simp
next
  case (Cons doc rest)
  show ?case
  proof (cases rule: tagLoop_step [of gm vaultPath edit doc updatedNotes w])
    case (stopped e w1)
    then show ?thesis using Cons.prems by simp
  next
    case (untouched content fm body tags)
    from Cons.IH [of updatedNotes "logged (ReadFile (path_join [vaultPath, doc])) w"]
      Cons.prems untouched(5) [of rest]
    show ?thesis by auto
  next
    case (edited content fm body tags tags' text')
    from Cons.IH [OF Cons.prems [unfolded edited(6) [of rest]]]
    show ?thesis by auto
  qed
qed

lemma tagLoop_edited:
  assumes "tagLoop gm vaultPath edit allFiles updatedNotes w = (Inr updated, w')"
    and "distinct (map (\<lambda>f. path_join [vaultPath, f]) allFiles)"
    and "doc \<in> set allFiles"
  shows "\<exists>content fm body tags.
           disk w (path_join [vaultPath, doc]) = Some content \<and>
           matter gm content = Inr (fm, body) \<and>
           newSet (orElse (getKey fm ''tags'') (Arr [])) = Inr tags \<and>
           (case edit tags of
              None \<Rightarrow> disk w' (path_join [vaultPath, doc]) = Some content
            | Some tags' \<Rightarrow>
                (\<exists>now text'.
                   stringify gm body
                     (setKey ''modified'' (Str now)
                        (setKey ''tags'' (Arr tags') (spread [] fm))) = Inr text' \<and>
                   disk w' (path_join [vaultPath, doc]) = Some text' \<and>
                   (path_join [vaultPath, doc],
                    setKey ''modified'' (Str now) (setKey ''tags'' (Arr tags') (spread [] fm)))
                     \<in> set (newlySerialized w w') \<and>
                   doc \<in> set updated))"
  using assms
proof (induction allFiles arbitrary: updatedNotes w)
  case Nil
  then show ?case by simp
next
  case (Cons first rest)
  let ?full = "\<lambda>f. path_join [vaultPath, f]"
  have nin: "?full first \<notin> ?full ` set rest" and d: "distinct (map ?full rest)"
    using Cons.prems(2) by auto
  show ?case
  proof (cases rule: tagLoop_step [of gm vaultPath edit first updatedNotes w])
    case (stopped e w1)
    then show ?thesis using Cons.prems by simp
  next
    case (untouched content fm body tags)
    let ?w1 = "logged (ReadFile (?full first)) w"
    have run: "tagLoop gm vaultPath edit rest updatedNotes ?w1 = (Inr updated, w')"
      using Cons.prems(1) untouched(5) [of rest] by simp
    have ns: "newlySerialized w w' = newlySerialized ?w1 w'"
      by (simp add: newlySerialized_def)
    show ?thesis
    proof (cases "?full doc = ?full first")
      case True
      have "disk w' (?full first) = disk ?w1 (?full first)"
        using tagLoop_frame [OF run] nin by blast
      then show ?thesis using untouched True by auto
    next
      case False
      then have "doc \<in> set rest" using Cons.prems(3) by auto
      from Cons.IH [OF run d this] show ?thesis unfolding ns by simp
    qed
  next
    case (edited content fm body tags tags' text')
    let ?fm = "setKey ''modified'' (Str (clock w (ticks w)))
                 (setKey ''tags'' (Arr tags') (spread [] fm))"
    let ?w1 = "w\<lparr> ticks := Suc (ticks w),
                   disk := (disk w)(?full first \<mapsto> text'),
                   accesses := accesses w @ [ReadFile (?full first), WriteFile (?full first)],
                   serialized := serialized w @ [(?full first, ?fm)] \<rparr>"
    have run: "tagLoop gm vaultPath edit rest (updatedNotes @ [first]) ?w1 = (Inr updated, w')"
      using Cons.prems(1) edited(6) [of rest] by simp
    from tagLoop_frame [OF run] obtain es added where
      es: "serialized w' = serialized ?w1 @ es" and
      added: "updated = (updatedNotes @ [first]) @ added" and
      keep: "\<And>q. q \<notin> ?full ` set rest \<Longrightarrow> disk w' q = disk ?w1 q"
      by blast
    have ns: "newlySerialized w w' = (?full first, ?fm) # newlySerialized ?w1 w'"
      using es by (simp add: newlySerialized_def)
    show ?thesis
    proof (cases "?full doc = ?full first")
      case True
      have "disk w' (?full first) = Some text'" using keep [OF nin] by simp
      moreover have "first \<in> set updated" using added by simp
      moreover have "doc \<in> set updated \<or> first \<in> set updated" using calculation by simp
      ultimately show ?thesis
      proof (cases "doc = first")
        case same: True
        show ?thesis
          using edited(1-5) same ns \<open>disk w' (?full first) = Some text'\<close>
            \<open>first \<in> set updated\<close>
          by (intro exI [of _ content] exI [of _ fm] exI [of _ body] exI [of _ tags]) auto
      next
        case other: False
        then have "doc \<in> set rest" using Cons.prems(3) by auto
        then have "?full doc \<in> ?full ` set rest" by simp
        then show ?thesis using True nin by simp
      qed
    next
      case False
      then have dr: "doc \<in> set rest" using Cons.prems(3) by auto
      from Cons.IH [OF run d dr] obtain content' fm' body' tgs where
        h: "disk ?w1 (?full doc) = Some content'" "matter gm content' = Inr (fm', body')"
           "newSet (orElse (getKey fm' ''tags'') (Arr [])) = Inr tgs"
           "(case edit tgs of
              None \<Rightarrow> disk w' (?full doc) = Some content'
            | Some tags' \<Rightarrow>
                (\<exists>now text'.
                   stringify gm body'
                     (setKey ''modified'' (Str now)
                        (setKey ''tags'' (Arr tags') (spread [] fm'))) = Inr text' \<and>
                   disk w' (?full doc) = Some text' \<and>
                   (?full doc,
                    setKey ''modified'' (Str now) (setKey ''tags'' (Arr tags') (spread [] fm')))
                     \<in> set (newlySerialized ?w1 w') \<and>
                   doc \<in> set updated))"
        by blast
      have "disk w (?full doc) = Some content'" using h(1) False by simp
      then show ?thesis
        using h(2-4) unfolding ns
        by (intro exI [of _ content'] exI [of _ fm'] exI [of _ body'] exI [of _ tgs])
           (auto split: option.splits)
    qed
  qed
qed

section \<open>Facts about the timestamps\<close>

lemma stamped_step:
  assumes "monotoneClock w" "stamped w" "wroteAtMostOne w w'"
  shows "monotoneClock w' \<and> stamped w'"
proof -
  have c: "clock w' = clock w" and t: "ticks w \<le> ticks w'"
    using assms(3) by (auto simp: wroteAtMostOne_def)
  have m: "monotoneClock w'" using assms(1) c by (simp add: monotoneClock_def)
  consider (same) "serialized w' = serialized w"
    | (one) p fm k where "serialized w' = serialized w @ [(p, fm)]"
        "modifiedOf fm = clock w k" "ticks w \<le> k" "k < ticks w'"
    using assms(3) by (auto simp: wroteAtMostOne_def)
  then have "stamped w'"
  proof cases
    case same
    have "\<exists>k < ticks w'. modifiedOf (snd e) = clock w' k" if mem: "e \<in> set (serialized w)" for e
    proof -
      obtain k where "k < ticks w" "modifiedOf (snd e) = clock w k"
        using assms(2) mem by (auto simp: stamped_def)
      then show ?thesis using c t by (intro exI [of _ k]) simp
    qed
    then show ?thesis
      using assms(2) same by (simp add: stamped_def)
  next
    case (one p fm k)
    have earlier: "modifiedOf (snd e) \<le> clock w k" if mem: "e \<in> set (serialized w)" for e
    proof -
      obtain k' where "k' < ticks w" "modifiedOf (snd e) = clock w k'"
        using assms(2) mem by (auto simp: stamped_def)
      then show ?thesis using assms(1) one(3) by (simp add: monotoneClock_def)
    qed
    have "sorted (map (modifiedOf \<circ> snd) (serialized w) @ [clock w k])"
      using assms(2) earlier by (auto simp: stamped_def sorted_append)
    moreover have "\<exists>k' < ticks w'. modifiedOf (snd e) = clock w' k'"
      if mem': "e \<in> set (serialized w')" for e
    proof (cases "e \<in> set (serialized w)")
      case True
      then obtain k' where "k' < ticks w" "modifiedOf (snd e) = clock w k'"
        using assms(2) by (auto simp: stamped_def)
      then show ?thesis using c t by (intro exI [of _ k']) simp
    next
      case False
      then have "e = (p, fm)" using mem' one(1) by simp
      then show ?thesis using one c by (intro exI [of _ k]) simp
    qed
    ultimately show ?thesis using one by (simp add: stamped_def)
  qed
  with m show ?thesis by simp
qed

lemma wroteAtMostOne_refl: "wroteAtMostOne w w"
  by (simp add: wroteAtMostOne_def)

lemma wroteAtMostOneI:
  assumes "clock w' = clock w" "serialized w' = serialized w @ [(p, fm)]"
    "modifiedOf fm = clock w k" "ticks w \<le> k" "k < ticks w'"
  shows "wroteAtMostOne w w'"
  using assms by (auto simp: wroteAtMostOne_def)

lemma wroteAtMostOne_timeline:
  assumes "wroteAtMostOne w w1" "clock w2 = clock w1" "ticks w1 \<le> ticks w2"
    "serialized w2 = serialized w1"
  shows "wroteAtMostOne w w2"
  using assms by (fastforce simp: wroteAtMostOne_def)

lemma writeNote_wroteAtMostOne:
  assumes "clock w1 = clock w" "serialized w1 = serialized w"
    "modifiedOf fm = clock w k" "ticks w \<le> k" "k < ticks w1"
  shows "wroteAtMostOne w (snd (writeNote gm p body fm w1))"
proof (cases rule: writeNote_cases [of gm body fm p w1])
  case (unserialized e)
  then show ?thesis using assms by (simp add: wroteAtMostOne_def)
next
  case (unwritten text')
  then show ?thesis using assms by (simp add: wroteAtMostOne_def)
next
  case (written text')
  then show ?thesis using assms by (auto simp: wroteAtMostOne_def)
qed

lemma modifiedOf_setKey [simp]: "modifiedOf (setKey ''modified'' (Str t) fm) = t"
  by (simp add: modifiedOf_def getKey_setKey)

lemma updateLinksInVault_timeline:
  "clock (NoteMoveAndRenameTool_updateLinksInVault vaultPath tree oldPath newPath w) = clock w \<and>
   ticks (NoteMoveAndRenameTool_updateLinksInVault vaultPath tree oldPath newPath w) = ticks w \<and>
   serialized (NoteMoveAndRenameTool_updateLinksInVault vaultPath tree oldPath newPath w)
     = serialized w"
  using rewriteFiles_timeline
  by (simp add: NoteMoveAndRenameTool_updateLinksInVault_def listMarkdownFiles_def
        split: sum.splits)

lemma update_wroteAtMostOne:
  "wroteAtMostOne w (snd (NoteUpdateTool_execute gm vaultPath params w))"
proof -
  let ?p = "path_join [vaultPath, u_notePath params]"
  show ?thesis
  proof (cases rule: fs_readFile_cases [of ?p w])
    case fail
    then show ?thesis
      by (simp add: NoteUpdateTool_execute_def Let_def wroteAtMostOne_def)
  next
    case missing
    then show ?thesis
      by (simp add: NoteUpdateTool_execute_def Let_def wroteAtMostOne_def)
  next
    case (found c)
    show ?thesis
    proof (cases "matter gm c")
      case (Inl e)
      then show ?thesis using found
        by (simp add: NoteUpdateTool_execute_def Let_def wroteAtMostOne_def)
    next
      case (Inr parsed)
      obtain fm body where parsed: "parsed = (fm, body)" by (cases parsed)
      define w2 where "w2 = logged (ReadFile ?p) w\<lparr>ticks := Suc (ticks w)\<rparr>"
      define f where "f = setKey ''modified'' (Str (clock w (ticks w)))
                        (setKey ''tags''
                           (case u_tags params of
                              Some ts \<Rightarrow> Arr ts
                            | None \<Rightarrow> getKey fm ''tags'')
                           (setKey ''title'' (strOr (u_title params) (getKey fm ''title''))
                              (spread (spread [] fm)
                                 (case u_frontmatter params of Some fm \<Rightarrow> fm | None \<Rightarrow> []))))"
      define b where "b = (case u_content params of
                             Some c \<Rightarrow> if c \<noteq> [] then c else body
                           | None \<Rightarrow> body)"
      have "snd (NoteUpdateTool_execute gm vaultPath params w) = snd (writeNote gm ?p b f w2)"
        using found Inr parsed
        by (simp add: NoteUpdateTool_execute_def Let_def newDate_def w2_def f_def b_def
              snd_andThen_return split: prod.splits)
      moreover have "wroteAtMostOne w (snd (writeNote gm ?p b f w2))"
        by (rule writeNote_wroteAtMostOne [where k = "ticks w"]) (simp_all add: w2_def f_def)
      ultimately show ?thesis by simp
    qed
  qed
qed

lemma loadTemplate_timeline:
  "clock (snd (loadTemplate vaultPath template content w)) = clock w \<and>
   ticks (snd (loadTemplate vaultPath template content w)) = ticks w \<and>
   serialized (snd (loadTemplate vaultPath template content w)) = serialized w"
  by (cases template)
     (auto simp: loadTemplate_def fs_readFile_world split: prod.splits sum.splits
        dest!: arg_cong [where f = snd])

lemma create_wroteAtMostOne:
  "wroteAtMostOne w (snd (NoteCreationTool_execute gm vaultPath params w))"
proof -
  let ?folder = "path_join [vaultPath, (case c_folder params of Some f \<Rightarrow> f | None \<Rightarrow> [])]"
  let ?p = "path_join [?folder, sanitizeFilename (c_title params) @ ''.md'']"
  let ?content = "(case c_content params of Some c \<Rightarrow> c | None \<Rightarrow> [])"
  show ?thesis
  proof (cases "Mkdir ?folder \<in> fails w")
    case True
    then show ?thesis
      by (simp add: NoteCreationTool_execute_def Let_def fs_mkdir_def wroteAtMostOne_def)
  next
    case False
    define w1 where "w1 = logged (Mkdir ?folder) w"
    have mk: "fs_mkdir ?folder w = (Inr (), w1)"
      using False by (simp add: fs_mkdir_def w1_def)
    obtain body w2 where ld: "loadTemplate vaultPath (c_template params) ?content w1 = (body, w2)"
      by (cases "loadTemplate vaultPath (c_template params) ?content w1")
    have tl: "clock w2 = clock w" "ticks w2 = ticks w" "serialized w2 = serialized w"
      using loadTemplate_timeline [of vaultPath "c_template params" ?content w1] ld
      by (simp_all add: w1_def)
    define fm where "fm =
      setKey ''modified'' (Str (clock w (Suc (ticks w))))
        (setKey ''created'' (Str (clock w (ticks w)))
           (setKey ''tags'' (Arr (case c_tags params of Some ts \<Rightarrow> ts | None \<Rightarrow> []))
              (setKey ''title'' (Str (c_title params))
                 (spread [] (case c_frontmatter params of Some fm \<Rightarrow> fm | None \<Rightarrow> [])))))"
    define w4 where "w4 = w2\<lparr>ticks := Suc (Suc (ticks w))\<rparr>"
    have nd: "newDate w2 = (clock w (ticks w), w2\<lparr>ticks := Suc (ticks w)\<rparr>)"
      "newDate (w2\<lparr>ticks := Suc (ticks w)\<rparr>) = (clock w (Suc (ticks w)), w4)"
      using tl by (simp_all add: newDate_def w4_def)
    have "snd (NoteCreationTool_execute gm vaultPath params w) = snd (writeNote gm ?p body fm w4)"
      unfolding NoteCreationTool_execute_def Let_def
      by (simp add: mk ld nd fm_def snd_andThen_return)
    moreover have "wroteAtMostOne w (snd (writeNote gm ?p body fm w4))"
      by (rule writeNote_wroteAtMostOne [where k = "Suc (ticks w)"])
         (simp_all add: w4_def fm_def tl)
    ultimately show ?thesis by simp
  qed
qed

lemma fs_mkdir_timeline:
  "clock (snd (fs_mkdir p w)) = clock w \<and> ticks (snd (fs_mkdir p w)) = ticks w \<and>
   serialized (snd (fs_mkdir p w)) = serialized w"
  by (simp add: fs_mkdir_def)

lemma fs_unlink_timeline:
  "clock (snd (fs_unlink p w)) = clock w \<and> ticks (snd (fs_unlink p w)) = ticks w \<and>
   serialized (snd (fs_unlink p w)) = serialized w"
  by (simp add: fs_unlink_def split: option.splits)

lemma move_wroteAtMostOne:
  "wroteAtMostOne w (snd (NoteMoveAndRenameTool_execute gm vaultPath tree params w))"
proof -
  let ?s = "path_join [vaultPath, m_sourcePath params]"
  let ?d = "path_join [vaultPath, m_destinationPath params]"
  let ?w = "snd (NoteMoveAndRenameTool_execute gm vaultPath tree params w)"
  show ?thesis
  proof (cases rule: fs_readFile_cases [of ?s w])
    case fail
    then show ?thesis
      by (simp add: NoteMoveAndRenameTool_execute_def Let_def wroteAtMostOne_def)
  next
    case missing
    then show ?thesis
      by (simp add: NoteMoveAndRenameTool_execute_def Let_def wroteAtMostOne_def)
  next
    case (found c)
    show ?thesis
    proof (cases "matter gm c")
      case (Inl e)
      then show ?thesis using found
        by (simp add: NoteMoveAndRenameTool_execute_def Let_def wroteAtMostOne_def)
    next
      case (Inr parsed)
      obtain fm body where parsed: "parsed = (fm, body)" by (cases parsed)
      define w2 where "w2 = logged (ReadFile ?s) w\<lparr>ticks := Suc (ticks w)\<rparr>"
      define f where "f = setKey ''modified'' (Str (clock w (ticks w)))
                        (setKey ''title'' (strOr (m_newTitle params) (getKey fm ''title''))
                           (spread [] fm))"
      define links where "links = (\<lambda>w5. if m_updateLinks params \<noteq> Some False then
                        NoteMoveAndRenameTool_updateLinksInVault vaultPath tree
                          (m_sourcePath params) (m_destinationPath params) w5
                      else w5)"
      have w: "?w = (case fs_mkdir (dirname ?d) w2 of
                       (Inl e, w3) \<Rightarrow> w3
                     | (Inr u, w3) \<Rightarrow>
                         (case writeNote gm ?d body f w3 of
                            (Inl e, w4) \<Rightarrow> w4
                          | (Inr u, w4) \<Rightarrow>
                              (case fs_unlink ?s w4 of
                                 (Inl e, w5) \<Rightarrow> w5
                               | (Inr u, w5) \<Rightarrow> links w5)))"
        using found Inr parsed
        by (simp add: NoteMoveAndRenameTool_execute_def rethrow_def andThen_def Let_def
              newDate_def w2_def f_def links_def split: sum.splits prod.splits)
      obtain r3 w3 where m: "fs_mkdir (dirname ?d) w2 = (r3, w3)"
        by (cases "fs_mkdir (dirname ?d) w2")
      have w3: "clock w3 = clock w" "ticks w3 = Suc (ticks w)" "serialized w3 = serialized w"
        using fs_mkdir_timeline [of "dirname ?d" w2] m by (simp_all add: w2_def)
      obtain r4 w4 where n: "writeNote gm ?d body f w3 = (r4, w4)"
        by (cases "writeNote gm ?d body f w3")
      have w4: "wroteAtMostOne w w4"
        using writeNote_wroteAtMostOne [of w3 w f "ticks w" gm ?d body] w3 n
        by (simp add: f_def)
      obtain r5 w5 where u: "fs_unlink ?s w4 = (r5, w5)" by (cases "fs_unlink ?s w4")
      have w5: "wroteAtMostOne w w5"
        using fs_unlink_timeline [of ?s w4] u
        by (intro wroteAtMostOne_timeline [OF w4]) simp_all
      have w6: "wroteAtMostOne w (links w5)"
        using updateLinksInVault_timeline
                [of vaultPath tree "m_sourcePath params" "m_destinationPath params" w5]
        by (intro wroteAtMostOne_timeline [OF w5]) (simp_all add: links_def)
      have w3': "wroteAtMostOne w w3"
        using w3 by (simp add: wroteAtMostOne_def)
      show ?thesis
      proof (cases r3)
        case Inl
        then show ?thesis using w m w3' by simp
      next
        case made: Inr
        show ?thesis
        proof (cases r4)
          case Inl
          then show ?thesis using w m made n w4 by simp
        next
          case wrote: Inr
          show ?thesis
          proof (cases r5)
            case Inl
            then show ?thesis using w m made n wrote u w5 by simp
          next
            case Inr
            then show ?thesis using w m made n wrote u w6 by simp
          qed
        qed
      qed
    qed
  qed
qed

lemma tagLoop_Nil_world: "snd (tagLoop gm vaultPath edit [] updatedNotes w) = w"
  by simp

lemma tagLoop_stamped:
  assumes "monotoneClock w" "stamped w"
  shows "monotoneClock (snd (tagLoop gm vaultPath edit allFiles updatedNotes w)) \<and>
         stamped (snd (tagLoop gm vaultPath edit allFiles updatedNotes w))"
  using assms
proof (induction allFiles arbitrary: updatedNotes w)
  case Nil
  then show ?case by simp
next
  case (Cons doc rest)
  show ?case
  proof (cases rule: tagLoop_step [of gm vaultPath edit doc updatedNotes w])
    case (stopped e w1)
    then have "wroteAtMostOne w w1" by (simp add: wroteAtMostOne_def)
    then show ?thesis
      using stamped_step [OF Cons.prems] stopped(2) by simp
  next
    case (untouched content fm body tags)
    let ?w2 = "logged (ReadFile (path_join [vaultPath, doc])) w"
    have "wroteAtMostOne w ?w2" by (simp add: wroteAtMostOne_def)
    then have "monotoneClock ?w2 \<and> stamped ?w2" by (rule stamped_step [OF Cons.prems])
    then show ?thesis using Cons.IH [of ?w2 updatedNotes] untouched(5) by simp
  next
    case (edited content fm body tags tags' text')
    define w2 where "w2 =
      w\<lparr> ticks := Suc (ticks w),
         disk := (disk w)(path_join [vaultPath, doc] \<mapsto> text'),
         accesses := accesses w @ [ReadFile (path_join [vaultPath, doc]),
                                   WriteFile (path_join [vaultPath, doc])],
         serialized := serialized w @
           [(path_join [vaultPath, doc],
             setKey ''modified'' (Str (clock w (ticks w)))
               (setKey ''tags'' (Arr tags') (spread [] fm)))] \<rparr>"
    have "wroteAtMostOne w w2"
      by (rule wroteAtMostOneI
                 [where k = "ticks w" and p = "path_join [vaultPath, doc]"
                    and fm = "setKey ''modified'' (Str (clock w (ticks w)))
                                (setKey ''tags'' (Arr tags') (spread [] fm))"])
         (simp_all add: w2_def)
    then have "monotoneClock w2 \<and> stamped w2" by (rule stamped_step [OF Cons.prems])
    then show ?thesis
      using Cons.IH [of w2 "updatedNotes @ [doc]"] edited(6) by (simp add: w2_def)
  qed
qed

lemma tagLoop_distinct:
  assumes "\<And>tags tags'. distinct tags \<Longrightarrow> edit tags = Some tags' \<Longrightarrow> distinct tags'"
  shows "\<exists>es. serialized (snd (tagLoop gm vaultPath edit allFiles updatedNotes w))
                 = serialized w @ es \<and>
              (\<forall>e \<in> set es. distinct (tagsOf (snd e)))"
proof (induction allFiles arbitrary: updatedNotes w)
  case Nil
  then show ?case by simp
next
  case (Cons doc rest)
  show ?case
  proof (cases rule: tagLoop_step [of gm vaultPath edit doc updatedNotes w])
    case (stopped e w1)
    then show ?thesis by simp
  next
    case (untouched content fm body tags)
    then show ?thesis
      using Cons.IH [of updatedNotes "logged (ReadFile (path_join [vaultPath, doc])) w"]
      by simp
  next
    case (edited content fm body tags tags' text')
    define made where "made =
      (path_join [vaultPath, doc],
       setKey ''modified'' (Str (clock w (ticks w)))
         (setKey ''tags'' (Arr tags') (spread [] fm)))"
    define w2 where "w2 =
      w\<lparr> ticks := Suc (ticks w),
         disk := (disk w)(path_join [vaultPath, doc] \<mapsto> text'),
         accesses := accesses w @ [ReadFile (path_join [vaultPath, doc]),
                                   WriteFile (path_join [vaultPath, doc])],
         serialized := serialized w @ [made] \<rparr>"
    have "distinct tags'"
      using assms newSet_distinct edited(3,4) by blast
    then have made: "distinct (tagsOf (snd made))"
      by (simp add: made_def tagsOf_def getKey_setKey)
    obtain es where es: "serialized (snd (tagLoop gm vaultPath edit rest (updatedNotes @ [doc]) w2))
                           = serialized w2 @ es" "\<forall>e \<in> set es. distinct (tagsOf (snd e))"
      using Cons.IH [of "updatedNotes @ [doc]" w2] by blast
    have "serialized (snd (tagLoop gm vaultPath edit (doc # rest) updatedNotes w))
            = serialized w @ (made # es)"
      using edited(6) [of rest] es(1) by (simp add: w2_def made_def)
    moreover have "\<forall>e \<in> set (made # es). distinct (tagsOf (snd e))"
      using made es(2) by simp
    ultimately show ?thesis by blast
  qed
qed

lemma tagStats_world: "snd (tagStats tag r) = snd r"
  unfolding tagStats_def by (rule snd_andThen_return) simp

lemma filesOrAll_world [simp]:
  "disk (snd (filesOrAll vaultPath tree notePaths w)) = disk w"
  "fails (snd (filesOrAll vaultPath tree notePaths w)) = fails w"
  "clock (snd (filesOrAll vaultPath tree notePaths w)) = clock w"
  "ticks (snd (filesOrAll vaultPath tree notePaths w)) = ticks w"
  "serialized (snd (filesOrAll vaultPath tree notePaths w)) = serialized w"
  by (cases notePaths; simp add: filesOrAll_def)+

lemma tag_world:
  obtains (stopped)
      "clock (snd (TagManagementTool_execute gm vaultPath tree operation w)) = clock w"
      "ticks (snd (TagManagementTool_execute gm vaultPath tree operation w)) = ticks w"
      "serialized (snd (TagManagementTool_execute gm vaultPath tree operation w)) = serialized w"
  | (looped) edit allFiles w0 where
      "snd (TagManagementTool_execute gm vaultPath tree operation w)
         = snd (tagLoop gm vaultPath edit allFiles [] w0)"
      "clock w0 = clock w" "ticks w0 = ticks w" "serialized w0 = serialized w"
      "\<And>tags tags'. distinct tags \<Longrightarrow> edit tags = Some tags' \<Longrightarrow> distinct tags'"
proof -
  define files where "files = filesOrAll vaultPath tree (t_notePaths operation) w"
  obtain r w0 where files: "files = (r, w0)" by (cases files)
  have "w0 = snd (filesOrAll vaultPath tree (t_notePaths operation) w)"
    using files by (simp add: files_def)
  then have w0: "clock w0 = clock w" "ticks w0 = ticks w" "serialized w0 = serialized w"
    by simp_all
  obtain r' w1 where listing: "listMarkdownFiles vaultPath tree w = (r', w1)"
    by (cases "listMarkdownFiles vaultPath tree w")
  have w1: "clock w1 = clock w" "ticks w1 = ticks w" "serialized w1 = serialized w"
    using listing listMarkdownFiles_world [of vaultPath tree w] by simp_all
  consider (add) "t_type operation = ''add''"
    | (remove) "t_type operation \<noteq> ''add''" "t_type operation = ''remove''"
    | (rename) "t_type operation \<noteq> ''add''" "t_type operation \<noteq> ''remove''"
        "t_type operation = ''rename''"
    | (other) "t_type operation \<noteq> ''add''" "t_type operation \<noteq> ''remove''"
        "t_type operation \<noteq> ''rename''"
    by blast
  then show ?thesis
  proof cases
    case add
    show ?thesis
    proof (cases r)
      case (Inl e)
      then have "snd (TagManagementTool_execute gm vaultPath tree operation w) = w0"
        using add files
        by (simp add: TagManagementTool_execute_def addTag_def files_def [symmetric])
      then show ?thesis using stopped w0 by simp
    next
      case (Inr allFiles)
      then have "snd (TagManagementTool_execute gm vaultPath tree operation w)
                   = snd (tagLoop gm vaultPath (addEdit (t_tag operation)) allFiles [] w0)"
        using add files
        by (simp add: TagManagementTool_execute_def addTag_def files_def [symmetric]
              tagStats_world)
      then show ?thesis using looped w0 addEdit_distinct by blast
    qed
  next
    case remove
    show ?thesis
    proof (cases r)
      case (Inl e)
      then have "snd (TagManagementTool_execute gm vaultPath tree operation w) = w0"
        using remove files
        by (simp add: TagManagementTool_execute_def removeTag_def files_def [symmetric])
      then show ?thesis using stopped w0 by simp
    next
      case (Inr allFiles)
      then have "snd (TagManagementTool_execute gm vaultPath tree operation w)
                   = snd (tagLoop gm vaultPath (removeEdit (t_tag operation)) allFiles [] w0)"
        using remove files
        by (simp add: TagManagementTool_execute_def removeTag_def files_def [symmetric]
              tagStats_world)
      then show ?thesis using looped w0 removeEdit_distinct by blast
    qed
  next
    case rename
    show ?thesis
    proof (cases "t_newTag operation")
      case None
      then show ?thesis using rename stopped
        by (simp add: TagManagementTool_execute_def)
    next
      case (Some newTag)
      show ?thesis
      proof (cases "newTag = []")
        case True
        then show ?thesis using rename Some stopped
          by (simp add: TagManagementTool_execute_def)
      next
        case False
        show ?thesis
        proof (cases r')
          case (Inl e)
          then have "snd (TagManagementTool_execute gm vaultPath tree operation w) = w1"
            using rename Some False listing
            by (simp add: TagManagementTool_execute_def renameTag_def)
          then show ?thesis using stopped w1 by simp
        next
          case (Inr allFiles)
          then have "snd (TagManagementTool_execute gm vaultPath tree operation w)
                       = snd (tagLoop gm vaultPath (renameEdit (t_tag operation) newTag)
                                allFiles [] w1)"
            using rename Some False listing
            by (simp add: TagManagementTool_execute_def renameTag_def tagStats_world)
          then show ?thesis using looped w1 renameEdit_distinct by blast
        qed
      qed
    qed
  next
    case other
    then show ?thesis using stopped
      by (simp add: TagManagementTool_execute_def)
  qed
qed

lemma applyOperation_stamped:
  assumes "monotoneClock w" "stamped w"
  shows "monotoneClock (applyOperation gm vaultPath op w) \<and>
         stamped (applyOperation gm vaultPath op w)"
proof (cases op)
  case (Create params)
  then show ?thesis using stamped_step [OF assms create_wroteAtMostOne] by simp
next
  case (Update params)
  then show ?thesis using stamped_step [OF assms update_wroteAtMostOne] by simp
next
  case (Move tree params)
  then show ?thesis using stamped_step [OF assms move_wroteAtMostOne] by simp
next
  case (Tag tree operation)
  show ?thesis
  proof (cases rule: tag_world [of gm vaultPath tree operation w])
    case stopped
    then have "wroteAtMostOne w (snd (TagManagementTool_execute gm vaultPath tree operation w))"
      by (simp add: wroteAtMostOne_def)
    then show ?thesis using Tag stamped_step [OF assms] by simp
  next
    case (looped edit allFiles w0)
    then have "wroteAtMostOne w w0" by (simp add: wroteAtMostOne_def)
    then have "monotoneClock w0 \<and> stamped w0" by (rule stamped_step [OF assms])
    then show ?thesis using Tag looped(1) tagLoop_stamped [of w0] by simp
  qed
qed

lemma applyAll_stamped:
  assumes "monotoneClock w" "stamped w"
  shows "monotoneClock (applyAll gm vaultPath ops w) \<and> stamped (applyAll gm vaultPath ops w)"
  using assms
proof (induction ops arbitrary: w)
  case Nil
  then show ?case by (simp add: applyAll_def)
next
  case (Cons op ops)
  then show ?case
    using applyOperation_stamped [of w gm vaultPath op]
    by (simp add: applyAll_def)
qed

lemma tag_distinct:
  "\<forall>e \<in> set (newlySerialized w (snd (TagManagementTool_execute gm vaultPath tree operation w))).
     distinct (tagsOf (snd e))"
proof (cases rule: tag_world [of gm vaultPath tree operation w])
  case stopped
  then show ?thesis by (simp add: newlySerialized_def)
next
  case (looped edit allFiles w0)
  then show ?thesis
    using tagLoop_distinct [of edit gm vaultPath allFiles "[]" w0]
    by (auto simp: newlySerialized_def)
qed

lemma digit_code:
  assumes "a \<le> 9"
  shows "(of_char (''0123456789'' ! a) :: nat) = 48 + a"
proof -
  consider "a = 0" | "a = 1" | "a = 2" | "a = 3" | "a = 4" | "a = 5" | "a = 6" | "a = 7"
    | "a = 8" | "a = 9"
    using assms by (auto simp: numeral_eq_Suc le_Suc_eq)
  then show ?thesis by cases simp_all
qed

lemma monotoneClock_emptyWorld: "monotoneClock emptyWorld"
proof -
  have "[CHR ''t'', ''0123456789'' ! min i 9] \<le> [CHR ''t'', ''0123456789'' ! min j 9]"
    if le: "i \<le> j" for i j :: nat
  proof -
    have "(of_char (''0123456789'' ! min i 9) :: nat) \<le> of_char (''0123456789'' ! min j 9)"
      using le by (simp add: digit_code)
    then have "''0123456789'' ! min i 9 \<le> ''0123456789'' ! min j 9"
      by (simp only: less_eq_char_def)
    then show ?thesis by (auto simp: le_less)
  qed
  then show ?thesis by (simp add: monotoneClock_def emptyWorld_def)
qed

lemma stamped_emptyWorld: "stamped emptyWorld"
  by (simp add: stamped_def emptyWorld_def)

section \<open>Facts about the keys of a frontmatter\<close>

lemma alist_eqI:
  assumes "map fst xs = map fst ys" "distinct (map fst xs)"
    and "\<forall>k \<in> set (map fst xs). map_of xs k = map_of ys k"
  shows "xs = ys"
  using assms
proof (induction xs arbitrary: ys)
  case Nil
  then show ?case by simp
next
  case (Cons x xs)
  obtain kx vx where x: "x = (kx, vx)" by (cases x)
  obtain y ys' where ys: "ys = y # ys'" using Cons.prems(1) by (cases ys) auto
  obtain ky vy where y: "y = (ky, vy)" by (cases y)
  have k: "kx = ky" and ks: "map fst xs = map fst ys'"
    using Cons.prems(1) x ys y by auto
  have fresh: "kx \<notin> set (map fst xs)" and d: "distinct (map fst xs)"
    using Cons.prems(2) x by auto
  have "map_of ((kx, vx) # xs) kx = map_of ((kx, vy) # ys') kx"
    using Cons.prems(3) x ys y k by auto
  then have v: "vx = vy" by simp
  have "map_of xs k' = map_of ys' k'" if k': "k' \<in> set (map fst xs)" for k'
  proof -
    have ne: "k' \<noteq> kx" using k' fresh by metis
    have "map_of ((kx, vx) # xs) k' = map_of ((kx, vy) # ys') k'"
      using Cons.prems(3) x ys y k k' by auto
    then show ?thesis using ne by simp
  qed
  then have "xs = ys'" using Cons.IH [OF ks d] by blast
  then show ?case using x ys y k v by simp
qed

lemma keys_setKey:
  "map fst (setKey k v fm)
     = (if k \<in> set (map fst fm) then map fst fm else map fst fm @ [k])"
proof (induction fm)
  case Nil
  then show ?case by simp
next
  case (Cons p fm)
  obtain k' v' where p: "p = (k', v')" by (cases p)
  show ?case
  proof (cases "k' = k")
    case True
    then show ?thesis using p by simp
  next
    case False
    then show ?thesis using p Cons.IH by simp
  qed
qed

lemma keyset_setKey [simp]: "fst ` set (setKey k v fm) = insert k (fst ` set fm)"
  using arg_cong [OF keys_setKey [of k v fm], of set] by (auto split: if_splits)

lemma setKey_fresh: "k \<notin> set (map fst fm) \<Longrightarrow> setKey k v fm = fm @ [(k, v)]"
proof (induction fm)
  case Nil
  then show ?case by simp
next
  case (Cons p fm)
  obtain k' v' where p: "p = (k', v')" by (cases p)
  then show ?case using Cons by auto
qed

lemma foldl_setKey_distinct:
  "distinct (map fst (acc @ given)) \<Longrightarrow>
     foldl (\<lambda>acc (k, v). setKey k v acc) acc given = acc @ given"
proof (induction given arbitrary: acc)
  case Nil
  then show ?case by simp
next
  case (Cons p given)
  obtain k v where p: "p = (k, v)" by (cases p)
  have "k \<notin> set (map fst acc)" using Cons.prems p by simp
  then have "setKey k v acc = acc @ [(k, v)]" by (rule setKey_fresh)
  moreover have "distinct (map fst ((acc @ [(k, v)]) @ given))" using Cons.prems p by simp
  ultimately show ?case using Cons.IH [of "acc @ [(k, v)]"] p by simp
qed

lemma spread_distinct: "distinct (map fst given) \<Longrightarrow> spread [] given = given"
  using foldl_setKey_distinct [of "[]" given] by (simp add: spread_def)

lemma map_of_keys:
  "map_of (map (\<lambda>k. (k, f k)) ks) k = (if k \<in> set ks then Some (f k) else None)"
  by (induction ks) auto

lemma created_frontmatter:
  assumes "distinct (map fst given)"
    and "(case c_frontmatter params of Some fm \<Rightarrow> fm | None \<Rightarrow> []) = given"
  shows "setKey ''modified'' (Str modified)
           (setKey ''created'' (Str created)
              (setKey ''tags'' (Arr (case c_tags params of Some ts \<Rightarrow> ts | None \<Rightarrow> []))
                 (setKey ''title'' (Str (c_title params)) (spread [] given))))
         = newFrontmatter params created modified"
    (is "?built = _")
proof (rule alist_eqI)
  let ?keys = "map fst given @
                 filter (\<lambda>k. k \<notin> fst ` set given)
                   [''title'', ''tags'', ''created'', ''modified'']"
  have sp: "spread [] given = given" by (rule spread_distinct [OF assms(1)])
  have new: "newFrontmatter params created modified
      = map (\<lambda>k. (k, if k = ''title'' then Str (c_title params)
                      else if k = ''tags'' then
                        Arr (case c_tags params of Some ts \<Rightarrow> ts | None \<Rightarrow> [])
                      else if k = ''created'' then Str created
                      else if k = ''modified'' then Str modified
                      else the (map_of given k))) ?keys"
    using assms(2) by (simp add: newFrontmatter_def Let_def)
  have keys_new: "map fst (newFrontmatter params created modified) = ?keys"
    unfolding new by (simp add: comp_def)
  show keys: "map fst ?built = map fst (newFrontmatter params created modified)"
    unfolding keys_new sp by (simp add: keys_setKey)
  show "distinct (map fst ?built)"
    unfolding keys keys_new using assms(1) by auto
  show "\<forall>k \<in> set (map fst ?built). map_of ?built k
          = map_of (newFrontmatter params created modified) k"
  proof
    fix k assume "k \<in> set (map fst ?built)"
    then have k: "k \<in> set ?keys" unfolding keys keys_new .
    have given: "map_of given k = Some (the (map_of given k))"
      if "k \<notin> {''title'', ''tags'', ''created'', ''modified''}"
    proof -
      have "set (filter (\<lambda>k. k \<notin> fst ` set given)
                   [''title'', ''tags'', ''created'', ''modified''])
              \<subseteq> {''title'', ''tags'', ''created'', ''modified''}"
        using filter_is_subset [of "\<lambda>k. k \<notin> fst ` set given"
                                   "[''title'', ''tags'', ''created'', ''modified'']"]
        by (simp del: filter.simps)
      then have "k \<in> fst ` set given" using k that by (auto simp del: filter.simps)
      then have "map_of given k \<noteq> None" by (simp add: map_of_eq_None_iff)
      then show ?thesis by simp
    qed
    show "map_of ?built k = map_of (newFrontmatter params created modified) k"
      unfolding new map_of_keys sp using k given by (simp add: map_of_setKey)
  qed
qed

section \<open>C1: a note move and the references to the note\<close>

lemma move_moved:
  assumes "NoteMoveAndRenameTool_execute gm vaultPath tree params w = (Inr note, w')"
  obtains w5 text' where
    "w' = (if m_updateLinks params \<noteq> Some False
           then NoteMoveAndRenameTool_updateLinksInVault vaultPath tree
                  (m_sourcePath params) (m_destinationPath params) w5
           else w5)"
    "fails w5 = fails w"
    "disk w5 = ((disk w)(path_join [vaultPath, m_destinationPath params] \<mapsto> text'))
                 (path_join [vaultPath, m_sourcePath params] := None)"
proof -
  let ?s = "path_join [vaultPath, m_sourcePath params]"
  let ?d = "path_join [vaultPath, m_destinationPath params]"
  show ?thesis
  proof (cases rule: fs_readFile_cases [of ?s w])
    case fail
    then show ?thesis using assms
      by (simp add: NoteMoveAndRenameTool_execute_def rethrow_def Let_def)
  next
    case missing
    then show ?thesis using assms
      by (simp add: NoteMoveAndRenameTool_execute_def rethrow_def Let_def)
  next
    case (found c)
    show ?thesis
    proof (cases "matter gm c")
      case (Inl e)
      then show ?thesis using assms found
        by (simp add: NoteMoveAndRenameTool_execute_def rethrow_def Let_def)
    next
      case (Inr parsed)
      obtain fm body where parsed: "parsed = (fm, body)" by (cases parsed)
      define f where "f = setKey ''modified'' (Str (clock w (ticks w)))
                        (setKey ''title'' (strOr (m_newTitle params) (getKey fm ''title''))
                           (spread [] fm))"
      define w2 where "w2 = logged (ReadFile ?s) w\<lparr>ticks := Suc (ticks w)\<rparr>"
      define w3 where "w3 = logged (Mkdir (dirname ?d)) w2"
      have ex: "NoteMoveAndRenameTool_execute gm vaultPath tree params w =
          rethrow (Wrapped ''Failed to move note'')
            (andThen (fs_mkdir (dirname ?d) w2) (\<lambda>u w3.
             andThen (writeNote gm ?d body f w3) (\<lambda>u w4.
             andThen (fs_unlink ?s w4) (\<lambda>u w5.
               (Inr \<lparr> n_path = ?d, n_title = getKey f ''title'', n_content = body,
                      n_frontmatter = f, n_tags = orElse (getKey f ''tags'') (Arr []),
                      n_created = getKey fm ''created'', n_modified = getKey f ''modified'' \<rparr>,
                if m_updateLinks params \<noteq> Some False then
                  NoteMoveAndRenameTool_updateLinksInVault vaultPath tree
                    (m_sourcePath params) (m_destinationPath params) w5
                else w5)))))"
        using found Inr parsed
        by (simp add: NoteMoveAndRenameTool_execute_def Let_def newDate_def f_def w2_def)
      show ?thesis
      proof (cases "Mkdir (dirname ?d) \<in> fails w2")
        case True
        then show ?thesis using assms ex by (simp add: fs_mkdir_def rethrow_def)
      next
        case False
        then have mk: "fs_mkdir (dirname ?d) w2 = (Inr (), w3)"
          by (simp add: fs_mkdir_def w3_def)
        show ?thesis
        proof (cases rule: writeNote_cases [of gm body f ?d w3])
          case (unserialized e)
          then show ?thesis using assms ex mk by (simp add: rethrow_def)
        next
          case (unwritten text')
          then show ?thesis using assms ex mk by (simp add: rethrow_def)
        next
          case (written text')
          define w4 where "w4 = (logged (WriteFile ?d) (w3\<lparr>disk := (disk w3)(?d \<mapsto> text')\<rparr>))
                                  \<lparr>serialized := serialized w3 @ [(?d, f)]\<rparr>"
          have d4: "disk w4 = (disk w)(?d \<mapsto> text')" and f4: "fails w4 = fails w"
            by (simp_all add: w4_def w3_def w2_def)
          have sd: "disk w4 ?s \<noteq> None" using found(3) d4 by simp
          show ?thesis
          proof (cases "Unlink ?s \<in> fails w4")
            case True
            then show ?thesis using assms ex mk written
              by (simp add: rethrow_def fs_unlink_def w4_def)
          next
            case False
            then obtain c' where c': "disk w4 ?s = Some c'" using sd by auto
            define w5 where "w5 = logged (Unlink ?s) (w4\<lparr>disk := (disk w4)(?s := None)\<rparr>)"
            have ul: "fs_unlink ?s w4 = (Inr (), w5)"
              using False c' by (simp add: fs_unlink_def w5_def)
            have "w' = (if m_updateLinks params \<noteq> Some False
                        then NoteMoveAndRenameTool_updateLinksInVault vaultPath tree
                               (m_sourcePath params) (m_destinationPath params) w5
                        else w5)"
              using assms ex mk written ul by (simp add: rethrow_def w4_def)
            moreover have "fails w5 = fails w" using f4 by (simp add: w5_def)
            moreover have "disk w5 = ((disk w)(?d \<mapsto> text'))(?s := None)"
              using d4 by (simp add: w5_def)
            ultimately show ?thesis by (rule that)
          qed
        qed
      qed
    qed
  qed
qed

text \<open>
  C1, as the specification states it: moving the note \<open>a/b.md\<close> to \<open>c/d.md\<close> turns
  \<open>[[b]]\<close> into \<open>[[d]]\<close> and \<open>[[b|custom alias]]\<close> into \<open>[[d|custom alias]]\<close> in every
  other document. The identifier the tool looks for is the path without its extension,
  \<open>a/b\<close>, so these two references stay as they are.
\<close>

theorem C1_bare_name_reference_counterexample:
  "disk (NoteMoveAndRenameTool_updateLinksInVault ''/vault''
           (DirEntry [(''c'', DirEntry [(''d.md'', FileEntry)]), (''other.md'', FileEntry)])
           ''a/b.md'' ''c/d.md''
           (emptyWorld\<lparr>disk := [''/vault/c/d.md'' \<mapsto> ''moved'',
                                  ''/vault/other.md'' \<mapsto> ''[[b]] and [[b|custom alias]]'']\<rparr>))
        ''/vault/other.md''
     = Some ''[[b]] and [[b|custom alias]]''"
  by (simp add: NoteMoveAndRenameTool_updateLinksInVault_def listMarkdownFiles_def
        path_join_def normalize_def
        normalizeString_def normalizeStep_def endsWithMd_def toLowerCase_def toLowerChar_def upperCaseChars_def lowerCaseChars_def
        pathToWikiLink_def stripMd_def isWhitespace_def fs_readFile_def fs_writeFile_def
        logged_def emptyWorld_def matchNoteLink_def notBracket_def Let_def)

text \<open>
  C1, amended. The identifier of a note is its path in the vault without the extension
  \<open>.md\<close> and with each run of whitespace turned into an underscore, so that the move of
  \<open>a/b.md\<close> to \<open>c/d.md\<close> rewrites \<open>a/b\<close> to \<open>c/d\<close>. When a move with link updating
  returns, a document of the listing other than the moved note has each reference whose
  target is the old identifier rewritten to the new identifier, with its alias kept as
  it is, and its other references and the text between them unchanged: \<open>[[a/b]]\<close>
  becomes \<open>[[c/d]]\<close> and \<open>[[a/b|custom alias]]\<close> becomes \<open>[[c/d|custom alias]]\<close>.

  This is said

  \<^item> of a document in which every \<open>[[\<close> opens a reference \<open>[[target]]\<close> or
    \<open>[[target|alias]]\<close> whose target has no bracket and no bar and whose alias has no
    \<open>]\<close> and no \<open>[[\<close> (\<open>wellFormedSegment\<close>; the text between the references may hold
    single brackets);

  \<^item> of identifiers free of the metacharacters of regular expressions, the new one also
    of \<open>$\<close>;

  \<^item> of a listing that names each file once, and in which the document and the files
    listed before it can be read and written and are not the source of the move: the
    loop over the listing stops at the first file it cannot read or write.
\<close>

theorem C1_move_rewrites_references:
  assumes "NoteMoveAndRenameTool_execute gm vaultPath tree params w = (Inr note, w')"
    and "m_updateLinks params \<noteq> Some False"
    and "getAllMarkdownFiles vaultPath tree = Inr (pre @ doc # post)"
    and "distinct (pre @ doc # post)"
    and "\<forall>f \<in> set (pre @ [doc]). ReadFile f \<notin> fails w \<and> WriteFile f \<notin> fails w \<and>
           f \<noteq> path_join [vaultPath, m_sourcePath params] \<and>
           (f \<noteq> path_join [vaultPath, m_destinationPath params] \<longrightarrow> disk w f \<noteq> None)"
    and "doc \<noteq> path_join [vaultPath, m_destinationPath params]"
    and "disk w doc = Some (render segs)" and "\<forall>seg \<in> set segs. wellFormedSegment seg"
    and "literalPattern (pathToWikiLink (m_sourcePath params))"
    and "literalReplacement (pathToWikiLink (m_destinationPath params))"
  shows "disk w' doc
           = Some (render (map (retarget (pathToWikiLink (m_sourcePath params))
                                  (pathToWikiLink (m_destinationPath params))) segs))"
proof -
  let ?s = "path_join [vaultPath, m_sourcePath params]"
  let ?d = "path_join [vaultPath, m_destinationPath params]"
  let ?replace = "replaceNoteLinks (pathToWikiLink (m_sourcePath params))
                    (pathToWikiLink (m_destinationPath params))"
  from move_moved [OF assms(1)] obtain w5 text' where
    w': "w' = (if m_updateLinks params \<noteq> Some False
               then NoteMoveAndRenameTool_updateLinksInVault vaultPath tree
                      (m_sourcePath params) (m_destinationPath params) w5
               else w5)" and
    f5: "fails w5 = fails w" and
    d5: "disk w5 = ((disk w)(?d \<mapsto> text'))(?s := None)"
    by blast
  define w6 where "w6 = snd (listMarkdownFiles vaultPath tree w5)"
  have f6: "fails w6 = fails w" and d6: "disk w6 = ((disk w)(?d \<mapsto> text'))(?s := None)"
    using f5 d5 by (simp_all add: w6_def)
  have "listMarkdownFiles vaultPath tree w5 = (Inr (pre @ doc # post), w6)"
    using assms(3) listMarkdownFiles_eq [of vaultPath tree w5] by (simp add: w6_def)
  then have w'': "w' = snd (rewriteFiles ?replace (pre @ doc # post) w6)"
    using w' assms(2) by (simp add: NoteMoveAndRenameTool_updateLinksInVault_def)
  have ok: "\<forall>f \<in> set (pre @ [doc]).
              ReadFile f \<notin> fails w6 \<and> WriteFile f \<notin> fails w6 \<and> disk w6 f \<noteq> None"
    using assms(5) f6 d6 by auto
  have "doc \<noteq> ?s" using assms(5) by auto
  then have c: "disk w6 doc = Some (render segs)" using d6 assms(6,7) by simp
  have "disk w' doc = Some (?replace (render segs))"
    unfolding w'' using rewriteFiles_reaches [OF assms(4) ok c, of ?replace] by simp
  then show ?thesis
    using replaceNoteLinks_render [OF assms(9,8)] by simp
qed

theorem C1_move_rewrites_references_witness:
  "fst (NoteMoveAndRenameTool_execute tagListCodec ''/vault''
          (DirEntry [(''c'', DirEntry [(''d.md'', FileEntry)]), (''other.md'', FileEntry)])
          \<lparr> m_sourcePath = ''a/b.md'', m_destinationPath = ''c/d.md'',
             m_newTitle = None, m_updateLinks = None \<rparr>
          (emptyWorld\<lparr>disk := [''/vault/a/b.md'' \<mapsto> ''x,y'',
             ''/vault/other.md'' \<mapsto> ''[[a/b]] and [[a/b|custom alias]] but [[b]]'']\<rparr>))
     = Inr \<lparr> n_path = ''/vault/c/d.md'', n_title = Undefined, n_content = [],
             n_frontmatter = [(''tags'', Arr [''x'', ''y'']), (''title'', Undefined),
                              (''modified'', Str ''t0'')],
             n_tags = Arr [''x'', ''y''], n_created = Undefined, n_modified = Str ''t0'' \<rparr> \<and>
   getAllMarkdownFiles ''/vault''
       (DirEntry [(''c'', DirEntry [(''d.md'', FileEntry)]), (''other.md'', FileEntry)])
     = Inr ([''/vault/c/d.md''] @ ''/vault/other.md'' # []) \<and>
   literalPattern (pathToWikiLink ''a/b.md'') \<and>
   literalReplacement (pathToWikiLink ''c/d.md'') \<and>
   list_all wellFormedSegment
     [Link ''a/b'' None, Text '' and '', Link ''a/b'' (Some ''custom alias''), Text '' but '',
      Link ''b'' None] \<and>
   disk (snd (NoteMoveAndRenameTool_execute tagListCodec ''/vault''
          (DirEntry [(''c'', DirEntry [(''d.md'', FileEntry)]), (''other.md'', FileEntry)])
          \<lparr> m_sourcePath = ''a/b.md'', m_destinationPath = ''c/d.md'',
             m_newTitle = None, m_updateLinks = None \<rparr>
          (emptyWorld\<lparr>disk := [''/vault/a/b.md'' \<mapsto> ''x,y'',
             ''/vault/other.md'' \<mapsto> ''[[a/b]] and [[a/b|custom alias]] but [[b]]'']\<rparr>)))
      ''/vault/other.md''
     = Some ''[[c/d]] and [[c/d|custom alias]] but [[b]]''"
  using C1_move_rewrites_references
    [of tagListCodec "''/vault''"
        "DirEntry [(''c'', DirEntry [(''d.md'', FileEntry)]), (''other.md'', FileEntry)]"
        "\<lparr> m_sourcePath = ''a/b.md'', m_destinationPath = ''c/d.md'',
           m_newTitle = None, m_updateLinks = None \<rparr>"
        "emptyWorld\<lparr>disk := [''/vault/a/b.md'' \<mapsto> ''x,y'',
           ''/vault/other.md'' \<mapsto> ''[[a/b]] and [[a/b|custom alias]] but [[b]]'']\<rparr>"
        "\<lparr> n_path = ''/vault/c/d.md'', n_title = Undefined, n_content = [],
           n_frontmatter = [(''tags'', Arr [''x'', ''y'']), (''title'', Undefined),
                            (''modified'', Str ''t0'')],
           n_tags = Arr [''x'', ''y''], n_created = Undefined, n_modified = Str ''t0'' \<rparr>"
        "snd (NoteMoveAndRenameTool_execute tagListCodec ''/vault''
          (DirEntry [(''c'', DirEntry [(''d.md'', FileEntry)]), (''other.md'', FileEntry)])
          \<lparr> m_sourcePath = ''a/b.md'', m_destinationPath = ''c/d.md'',
             m_newTitle = None, m_updateLinks = None \<rparr>
          (emptyWorld\<lparr>disk := [''/vault/a/b.md'' \<mapsto> ''x,y'',
             ''/vault/other.md'' \<mapsto> ''[[a/b]] and [[a/b|custom alias]] but [[b]]'']\<rparr>))"
        "[''/vault/c/d.md'']" "''/vault/other.md''" "[]"
        "[Link ''a/b'' None, Text '' and '', Link ''a/b'' (Some ''custom alias''), Text '' but '',
          Link ''b'' None]"]
  by (simp add: NoteMoveAndRenameTool_execute_def NoteMoveAndRenameTool_updateLinksInVault_def
        listMarkdownFiles_def rethrow_def fs_readFile_def fs_writeFile_def fs_mkdir_def fs_unlink_def writeNote_def
        newDate_def logged_def emptyWorld_def tagListCodec_def tagsOf_def
        path_join_def normalize_def normalizeString_def normalizeStep_def dirname_def Let_def
        endsWithMd_def toLowerCase_def toLowerChar_def upperCaseChars_def lowerCaseChars_def pathToWikiLink_def stripMd_def
        isWhitespace_def matchNoteLink_def notBracket_def
        orElse_def getKey_def spread_def strOr_def render_def
        literalPattern_def literalReplacement_def)

section \<open>C2: which references a rewrite touches\<close>




section \<open>C4: renaming a tag\<close>

text \<open>
  C4, as the specification states it: the rename puts the new tag in the place of the
  old one. The tool deletes the old tag from a set and adds the new one to it, and a set
  adds at the end: the tags \<open>old, x\<close> become \<open>x, new\<close>, not \<open>new, x\<close>.
\<close>

theorem C4_rename_not_in_place_counterexample:
  "newSet (orElse (Arr [''old'', ''x'']) (Arr [])) = Inr [''old'', ''x''] \<and>
   renameEdit ''old'' ''new'' [''old'', ''x''] = Some [''x'', ''new'']"
  by (simp add: newSet_def orElse_def renameEdit_def setAdd_def setDelete_def)

text \<open>
  C4, amended: when a rename of \<open>oldTag\<close> to a different \<open>newTag\<close> returns, every note
  of the listing that had \<open>oldTag\<close> among its tags is written with a list of tags,
  without repetitions, that no longer has \<open>oldTag\<close> and has \<open>newTag\<close> once. The other
  tags keep their order; \<open>newTag\<close> stays where it was when the note had it already,
  and comes last otherwise. The note is counted among the notes of the result. A note is
  read and written at the path that joins the vault root to its path in the listing, and
  the listing names each such path once.
\<close>

theorem C4_rename_replaces_the_tag:
  assumes "renameTag gm vaultPath tree oldTag newTag w = (Inr stats, w')"
    and "oldTag \<noteq> newTag"
    and "getAllMarkdownFiles vaultPath tree = Inr allFiles"
    and "distinct (map (\<lambda>f. path_join [vaultPath, f]) allFiles)"
    and "doc \<in> set allFiles"
    and "disk w (path_join [vaultPath, doc]) = Some content"
    and "matter gm content = Inr (fm, body)"
    and "getKey fm ''tags'' = Arr tags" and "oldTag \<in> set tags"
    and "renamed = (if newTag \<in> set tags
                    then filter (\<lambda>t. t \<noteq> oldTag) (foldl setAdd [] tags)
                    else filter (\<lambda>t. t \<noteq> oldTag) (foldl setAdd [] tags) @ [newTag])"
  shows "oldTag \<notin> set renamed \<and> count_list renamed newTag = 1 \<and> distinct renamed \<and>
         filter (\<lambda>t. t \<noteq> newTag) renamed
           = filter (\<lambda>t. t \<noteq> oldTag \<and> t \<noteq> newTag) (foldl setAdd [] tags) \<and>
         doc \<in> set (s_notes stats) \<and> s_tag stats = newTag \<and>
         (\<exists>fm' text'.
            tagsOf fm' = renamed \<and>
            (path_join [vaultPath, doc], fm') \<in> set (newlySerialized w w') \<and>
            stringify gm body fm' = Inr text' \<and>
            disk w' (path_join [vaultPath, doc]) = Some text')"
proof -
  let ?T = "foldl setAdd [] tags"
  have dT: "distinct ?T" by (simp add: distinct_foldl_setAdd)
  have sT: "set ?T = set tags" by (simp add: set_foldl_setAdd)
  have r: "renamed = (if newTag \<in> set ?T then filter (\<lambda>t. t \<noteq> oldTag) ?T
                      else filter (\<lambda>t. t \<noteq> oldTag) ?T @ [newTag])"
    using assms(10) sT by simp
  have props: "oldTag \<notin> set renamed \<and> count_list renamed newTag = 1 \<and> distinct renamed \<and>
         filter (\<lambda>t. t \<noteq> newTag) renamed = filter (\<lambda>t. t \<noteq> oldTag \<and> t \<noteq> newTag) ?T"
    by (rule renamed_properties [OF dT assms(2) r])
  have ed: "renameEdit oldTag newTag ?T = Some renamed"
    using renameEdit_result [OF dT _ assms(2)] assms(9) sT r by simp
  define w0 where "w0 = snd (listMarkdownFiles vaultPath tree w)"
  have w0: "disk w0 = disk w" "newlySerialized w0 w' = newlySerialized w w'"
    by (simp_all add: w0_def newlySerialized_def)
  have "listMarkdownFiles vaultPath tree w = (Inr allFiles, w0)"
    using assms(3) listMarkdownFiles_eq [of vaultPath tree w] by (simp add: w0_def)
  then obtain updated where
    run: "tagLoop gm vaultPath (renameEdit oldTag newTag) allFiles [] w0 = (Inr updated, w')"
    and st: "stats = \<lparr> s_tag = newTag, s_count = length updated, s_notes = updated \<rparr>"
    using assms(1)
    by (auto simp: renameTag_def tagStats_def andThen_def split: prod.splits sum.splits)
  from tagLoop_edited [OF run assms(4,5), unfolded w0] obtain content' fm0 body0 tgs where
    h: "disk w (path_join [vaultPath, doc]) = Some content'" "matter gm content' = Inr (fm0, body0)"
       "newSet (orElse (getKey fm0 ''tags'') (Arr [])) = Inr tgs"
       "(case renameEdit oldTag newTag tgs of
           None \<Rightarrow> disk w' (path_join [vaultPath, doc]) = Some content'
         | Some tags' \<Rightarrow>
             (\<exists>now text'.
                stringify gm body0
                  (setKey ''modified'' (Str now)
                     (setKey ''tags'' (Arr tags') (spread [] fm0))) = Inr text' \<and>
                disk w' (path_join [vaultPath, doc]) = Some text' \<and>
                (path_join [vaultPath, doc],
                 setKey ''modified'' (Str now) (setKey ''tags'' (Arr tags') (spread [] fm0)))
                  \<in> set (newlySerialized w w') \<and>
                doc \<in> set updated))"
    by blast
  have same: "content' = content" "fm0 = fm" "body0 = body"
    using h(1,2) assms(6,7) by auto
  have "tgs = ?T" using h(3) same assms(8) by (simp add: newSet_tags)
  with h(4) ed same obtain now text' where
    w: "stringify gm body
          (setKey ''modified'' (Str now) (setKey ''tags'' (Arr renamed) (spread [] fm)))
          = Inr text'"
       "disk w' (path_join [vaultPath, doc]) = Some text'"
       "(path_join [vaultPath, doc],
         setKey ''modified'' (Str now) (setKey ''tags'' (Arr renamed) (spread [] fm)))
          \<in> set (newlySerialized w w')"
       "doc \<in> set updated"
    by auto
  have "tagsOf (setKey ''modified'' (Str now) (setKey ''tags'' (Arr renamed) (spread [] fm)))
          = renamed"
    by (simp add: tagsOf_def getKey_setKey)
  then show ?thesis using props w st by auto
qed

theorem C4_rename_replaces_the_tag_witness:
  "fst (renameTag tagListCodec ''.'' (DirEntry [(''a.md'', FileEntry), (''b.md'', FileEntry)])
          ''old'' ''new''
          (emptyWorld\<lparr>disk := [''a.md'' \<mapsto> ''old,x'', ''b.md'' \<mapsto> ''y'']\<rparr>))
     = Inr \<lparr> s_tag = ''new'', s_count = 1, s_notes = [''a.md''] \<rparr> \<and>
   ''old'' \<noteq> ''new'' \<and>
   getAllMarkdownFiles ''.'' (DirEntry [(''a.md'', FileEntry), (''b.md'', FileEntry)])
     = Inr [''a.md'', ''b.md''] \<and>
   distinct (map (\<lambda>f. path_join [''.'', f]) [''a.md'', ''b.md'']) \<and>
   path_join [''.'', ''a.md''] = ''a.md'' \<and>
   matter tagListCodec ''old,x'' = Inr ([(''tags'', Arr [''old'', ''x''])], []) \<and>
   disk (snd (renameTag tagListCodec ''.''
                (DirEntry [(''a.md'', FileEntry), (''b.md'', FileEntry)]) ''old'' ''new''
                (emptyWorld\<lparr>disk := [''a.md'' \<mapsto> ''old,x'', ''b.md'' \<mapsto> ''y'']\<rparr>)))
     ''a.md'' = Some ''x,new'' \<and>
   newlySerialized (emptyWorld\<lparr>disk := [''a.md'' \<mapsto> ''old,x'', ''b.md'' \<mapsto> ''y'']\<rparr>)
     (snd (renameTag tagListCodec ''.''
             (DirEntry [(''a.md'', FileEntry), (''b.md'', FileEntry)]) ''old'' ''new''
             (emptyWorld\<lparr>disk := [''a.md'' \<mapsto> ''old,x'', ''b.md'' \<mapsto> ''y'']\<rparr>)))
     = [(''a.md'', [(''tags'', Arr [''x'', ''new'']), (''modified'', Str ''t0'')])]"
  (is ?facts)
proof -
  have paths: "path_join [''.'', ''a.md''] = ''a.md''" "path_join [''.'', ''b.md''] = ''b.md''"
    by (simp_all add: path_join_def normalize_def normalizeString_def normalizeStep_def Let_def)
  have listing: "getAllMarkdownFiles ''.'' (DirEntry [(''a.md'', FileEntry), (''b.md'', FileEntry)])
                   = Inr [''a.md'', ''b.md'']"
    by (simp add: paths endsWithMd_def toLowerCase_def toLowerChar_def upperCaseChars_def
          lowerCaseChars_def)
  have codec: "matter tagListCodec ''old,x'' = Inr ([(''tags'', Arr [''old'', ''x''])], [])"
    "matter tagListCodec ''y'' = Inr ([(''tags'', Arr [''y''])], [])"
    by (simp_all add: tagListCodec_def)
  have facts: ?facts
    unfolding renameTag_def listMarkdownFiles_def listing
    by (simp add: paths tagStats_def fs_readFile_def
          fs_writeFile_def writeNote_def newDate_def logged_def emptyWorld_def
          newlySerialized_def renameEdit_def setAdd_def setDelete_def newSet_def orElse_def
          getKey_def spread_def Let_def tagListCodec_def tagsOf_def)
  show ?thesis
    using C4_rename_replaces_the_tag
      [of tagListCodec "''.''" "DirEntry [(''a.md'', FileEntry), (''b.md'', FileEntry)]"
          "''old''" "''new''"
          "emptyWorld\<lparr>disk := [''a.md'' \<mapsto> ''old,x'', ''b.md'' \<mapsto> ''y'']\<rparr>"
          "\<lparr> s_tag = ''new'', s_count = 1, s_notes = [''a.md''] \<rparr>"
          "snd (renameTag tagListCodec ''.''
                  (DirEntry [(''a.md'', FileEntry), (''b.md'', FileEntry)]) ''old'' ''new''
                  (emptyWorld\<lparr>disk := [''a.md'' \<mapsto> ''old,x'', ''b.md'' \<mapsto> ''y'']\<rparr>))"
          "[''a.md'', ''b.md'']" "''a.md''" "''old,x''" "[(''tags'', Arr [''old'', ''x''])]" "[]"
          "[''old'', ''x'']" "[''x'', ''new'']"]
    by (intro facts)
qed

section \<open>C5: a document that cannot be read or written\<close>

lemma move_result_without_links:
  "fst (NoteMoveAndRenameTool_execute gm vaultPath tree params w)
     = fst (NoteMoveAndRenameTool_execute gm vaultPath tree (params\<lparr>m_updateLinks := Some False\<rparr>) w)"
  by (simp add: NoteMoveAndRenameTool_execute_def rethrow_def andThen_def Let_def
        split: prod.splits sum.splits)

lemma tagLoop_stops:
  assumes "tagLoop gm vaultPath edit pre [] w0 = (Inr updated, w1)"
    and "tagLoop gm vaultPath edit [doc] updated w1 = (Inl e, w2)"
  shows "tagLoop gm vaultPath edit (pre @ doc # post) [] w0 = (Inl e, w2)"
proof -
  have "tagLoop gm vaultPath edit (doc # post) updated w1 = (Inl e, w2)"
    using assms(2) tagLoop_append [of gm vaultPath edit "[doc]" post updated w1] by simp
  then show ?thesis using assms(1) by (simp add: tagLoop_append)
qed

lemma rewriteFiles_stops:
  assumes "rewriteFiles replace pre w0 = (Inr (), w1)"
    and "rewriteFiles replace [doc] w1 = (Inl e, w2)"
  shows "rewriteFiles replace (pre @ doc # post) w0 = (Inl e, w2)"
proof -
  have "rewriteFiles replace (doc # post) w1 = (Inl e, w2)"
    using assms(2) rewriteFiles_append [of replace "[doc]" post w1] by simp
  then show ?thesis using assms(1) by (simp add: rewriteFiles_append)
qed

lemma moveFolder_returns:
  assumes "Mkdir (dirname (path_join [vaultPath, destinationPath])) \<notin> fails w"
    and "Rename (path_join [vaultPath, sourcePath]) (path_join [vaultPath, destinationPath])
           \<notin> fails w"
  shows "fst (moveFolder vaultPath tree statsTree sourcePath destinationPath w)
           = Inr (fst (getFolderStats vaultPath statsTree destinationPath w))"
  using assms
  by (simp add: moveFolder_def fs_mkdir_def fs_rename_def getFolderStats_def Let_def
        split: prod.splits)




section \<open>C6: a required tool that the agent does not have\<close>

lemma executePlanFrom_append:
  "executePlanFrom tools (pre @ rest) results s =
     (case executePlanFrom tools pre results s of
        (Inl e, s1) \<Rightarrow> (Inl e, s1)
      | (Inr done, s1) \<Rightarrow> executePlanFrom tools rest done s1)"
  by (induction pre arbitrary: results s) (auto split: prod.splits sum.splits)

lemma executeStep_missing:
  assumes "toolName step \<notin> tool_name ` set tools"
  shows "executeStep tools step s = (Inl (Message (''Tool '' @ toolName step @ '' not found'')), s)"
proof -
  have "find (\<lambda>t. tool_name t = toolName step) tools = None"
    using assms by (force simp: find_None_iff)
  then show ?thesis by (simp add: executeStep_def)
qed

text \<open>
  C6, as the specification states it: a task whose analysis names a required tool that
  the agent does not have fails while it is planned. It does not: with one tool
  \<open>note_creation\<close>, an analysis that requires \<open>note_creation\<close> and \<open>ghost_tool\<close>, and
  a plan of one step for each tool selected, the task completes and reports success.
\<close>

theorem C6_unknown_required_tool_counterexample:
  "BaseAgent_execute
     \<lparr> understandTask =
         (\<lambda>task. Inr \<lparr> requiredTools = Some [''note_creation'', ''ghost_tool''] \<rparr>),
       createExecutionPlan =
         (\<lambda>u names. Inr (Some (map (\<lambda>n. \<lparr> toolName = n, parameters = ''p'' \<rparr>) names))) \<rparr>
     [\<lparr> tool_name = ''note_creation'', tool_execute = (\<lambda>p s. (Inr p, Suc s)) \<rparr>]
     ''create a note'' (0::nat)
   = (\<lparr> success = True, message = ''Task completed successfully'',
        data = Some [''p''], failure = None \<rparr>, 1)"
  by (simp add: BaseAgent_execute_def selectTools_def executePlan_def executeStep_def)

text \<open>
  C6, amended: selecting the tools keeps the agent's tools whose names are required and
  drops the other required names without an error. A task fails for a missing tool only
  when a step of its plan names a tool the agent does not have, and then while the plan
  runs: the steps before that one have run, the agent reports the failure
  \<open>Tool ... not found\<close>, and neither that step nor a later one runs.
\<close>

theorem C6_missing_tool_fails_at_its_step:
  "(requiredTools u = Some names \<longrightarrow>
      map tool_name (selectTools tools u) = filter (\<lambda>n. n \<in> set names) (map tool_name tools)) \<and>
   (understandTask openai task = Inr u \<and>
    createExecutionPlan openai u (map tool_name (selectTools tools u))
      = Inr (Some (pre @ step # post)) \<and>
    executePlanFrom tools pre [] s = (Inr results, s1) \<and>
    toolName step \<notin> tool_name ` set tools \<longrightarrow>
      BaseAgent_execute openai tools task s
        = (\<lparr> success = False, message = ''Task execution failed'', data = None,
             failure = Some (Message (''Tool '' @ toolName step @ '' not found'')) \<rparr>, s1))"
proof (intro conjI impI)
  assume "requiredTools u = Some names"
  then show "map tool_name (selectTools tools u)
               = filter (\<lambda>n. n \<in> set names) (map tool_name tools)"
    by (simp add: selectTools_def filter_map comp_def)
next
  assume a: "understandTask openai task = Inr u \<and>
    createExecutionPlan openai u (map tool_name (selectTools tools u))
      = Inr (Some (pre @ step # post)) \<and>
    executePlanFrom tools pre [] s = (Inr results, s1) \<and>
    toolName step \<notin> tool_name ` set tools"
  then have "executeStep tools step s1
               = (Inl (Message (''Tool '' @ toolName step @ '' not found'')), s1)"
    by (simp add: executeStep_missing)
  then have "executePlanFrom tools (pre @ step # post) [] s
               = (Inl (Message (''Tool '' @ toolName step @ '' not found'')), s1)"
    using a by (simp add: executePlanFrom_append)
  then show "BaseAgent_execute openai tools task s
        = (\<lparr> success = False, message = ''Task execution failed'', data = None,
             failure = Some (Message (''Tool '' @ toolName step @ '' not found'')) \<rparr>, s1)"
    using a by (simp add: BaseAgent_execute_def executePlan_def)
qed

theorem C6_missing_tool_fails_at_its_step_witness:
  "map tool_name
     (selectTools [\<lparr> tool_name = ''note_creation'', tool_execute = (\<lambda>p s. (Inr p, Suc s)) \<rparr>]
        \<lparr> requiredTools = Some [''note_creation'', ''ghost_tool''] \<rparr>)
     = [''note_creation''] \<and>
   executePlanFrom [\<lparr> tool_name = ''note_creation'', tool_execute = (\<lambda>p s. (Inr p, Suc s)) \<rparr>]
     [\<lparr> toolName = ''note_creation'', parameters = ''p'' \<rparr>] [] (0::nat) = (Inr [''p''], 1) \<and>
   ''ghost_tool'' \<notin> tool_name `
      set [\<lparr> tool_name = ''note_creation'', tool_execute = (\<lambda>(p::string) (s::nat). (Inr p, Suc s)) \<rparr>] \<and>
   BaseAgent_execute
     \<lparr> understandTask =
         (\<lambda>task. Inr \<lparr> requiredTools = Some [''note_creation'', ''ghost_tool''] \<rparr>),
       createExecutionPlan =
         (\<lambda>u names. Inr (Some [\<lparr> toolName = ''note_creation'', parameters = ''p'' \<rparr>,
                                \<lparr> toolName = ''ghost_tool'', parameters = ''q'' \<rparr>,
                                \<lparr> toolName = ''note_creation'', parameters = ''r'' \<rparr>])) \<rparr>
     [\<lparr> tool_name = ''note_creation'', tool_execute = (\<lambda>p s. (Inr p, Suc s)) \<rparr>]
     ''create a note'' (0::nat)
   = (\<lparr> success = False, message = ''Task execution failed'', data = None,
        failure = Some (Message ''Tool ghost_tool not found'') \<rparr>, 1)"
  using C6_missing_tool_fails_at_its_step
    [of "\<lparr> requiredTools = Some [''note_creation'', ''ghost_tool''] \<rparr>"
        "[''note_creation'', ''ghost_tool'']"
        "[\<lparr> tool_name = ''note_creation'', tool_execute = (\<lambda>p s. (Inr p, Suc s)) \<rparr>]"
        "\<lparr> understandTask =
           (\<lambda>task. Inr \<lparr> requiredTools = Some [''note_creation'', ''ghost_tool''] \<rparr>),
          createExecutionPlan =
           (\<lambda>u names. Inr (Some [\<lparr> toolName = ''note_creation'', parameters = ''p'' \<rparr>,
                                  \<lparr> toolName = ''ghost_tool'', parameters = ''q'' \<rparr>,
                                  \<lparr> toolName = ''note_creation'', parameters = ''r'' \<rparr>])) \<rparr>"
        "''create a note''"
        "[\<lparr> toolName = ''note_creation'', parameters = ''p'' \<rparr>]"
        "\<lparr> toolName = ''ghost_tool'', parameters = ''q'' \<rparr>"
        "[\<lparr> toolName = ''note_creation'', parameters = ''r'' \<rparr>]"
        "0::nat" "[''p'']" "1::nat"]
  by (simp add: executeStep_def selectTools_def)

section \<open>C8: a file is written only when the rewrite changed it\<close>

lemma rewriteFiles_cascadeEffect:
  assumes "distinct (pre @ doc # post)" and "disk w doc = Some content"
    and "disk w0 = disk w" "fails w0 = fails w" "ticks w0 = ticks w"
    "serialized w0 = serialized w" "accesses w0 = accesses w @ calls"
    "WriteFile doc \<notin> set calls"
  shows "cascadeEffect w (pre @ [doc]) doc content (replace content)
           (snd (rewriteFiles replace (pre @ doc # post) w0))"
proof -
  let ?w' = "snd (rewriteFiles replace (pre @ doc # post) w0)"
  from rewriteFiles_trace [OF assms(1), of replace w0] obtain xs where
    acc: "accesses ?w' = accesses w0 @ xs" and
    wr: "\<And>p. WriteFile p \<in> set xs \<Longrightarrow> (\<exists>c. disk w0 p = Some c \<and> replace c \<noteq> c)" and
    dk: "\<And>p. disk ?w' p = disk w0 p \<or>
            (\<exists>c. disk w0 p = Some c \<and> disk ?w' p = Some (replace c))"
    by blast
  have na: "newAccesses w ?w' = calls @ xs"
    using acc assms(7) by (intro newAccesses_append) simp
  have attempted: "replace content \<noteq> content" if "WriteFile doc \<in> set (newAccesses w ?w')"
    using that wr [of doc] assms(2,3,8) na by auto
  have either: "disk ?w' doc = Some content \<or> disk ?w' doc = Some (replace content)"
    using dk [of doc] assms(2,3) by auto
  have reached: "WriteFile doc \<in> set (newAccesses w ?w') \<and> disk ?w' doc = Some (replace content)"
    if "replace content \<noteq> content"
      and "\<forall>f \<in> set (pre @ [doc]).
             ReadFile f \<notin> fails w \<and> WriteFile f \<notin> fails w \<and> disk w f \<noteq> None"
  proof -
    have ok: "\<forall>f \<in> set (pre @ [doc]).
                ReadFile f \<notin> fails w0 \<and> WriteFile f \<notin> fails w0 \<and> disk w0 f \<noteq> None"
      using that(2) assms(3,4) by simp
    have c: "disk w0 doc = Some content" using assms(2,3) by simp
    from rewriteFiles_reaches [OF assms(1) ok c, of replace] that(1)
    have "disk ?w' doc = Some (replace content)" "WriteFile doc \<in> set (newAccesses w0 ?w')"
      by auto
    moreover have "newAccesses w0 ?w' = xs" using acc by (rule newAccesses_append)
    ultimately show ?thesis using na by simp
  qed
  have "ticks ?w' = ticks w" "serialized ?w' = serialized w"
    using rewriteFiles_timeline [of replace "pre @ doc # post" w0] assms(5,6) by simp_all
  then show ?thesis
    unfolding cascadeEffect_def using attempted either reached by auto
qed

text \<open>
  C8, as the specification states it: in a cascade a document is written back if and only
  if the rewrite changed its text. One half fails: the loop stops at the first file that
  cannot be read or written, and a document listed after that file keeps its text though
  the rewrite would change it. In the vault of three notes whose second note cannot be
  read, the rewrite of \<open>foo\<close> to \<open>baz\<close> changes the text of \<open>c.md\<close>, and \<open>c.md\<close> is
  neither written nor changed.
\<close>

theorem C8_changed_but_not_written_counterexample:
  "disk threeNotes ''/vault/c.md'' = Some ''[[foo]]'' \<and>
   replaceNoteLinks (pathToWikiLink ''foo.md'') (pathToWikiLink ''baz.md'') ''[[foo]]''
     = ''[[baz]]'' \<and>
   getAllMarkdownFiles ''/vault'' threeNotesTree
     = Inr [''/vault/a.md'', ''/vault/b.md'', ''/vault/c.md''] \<and>
   newAccesses threeNotes
     (NoteMoveAndRenameTool_updateLinksInVault ''/vault'' threeNotesTree
        ''foo.md'' ''baz.md'' threeNotes)
     = [Readdir ''/vault'', ReadFile ''/vault/a.md'', WriteFile ''/vault/a.md'',
        ReadFile ''/vault/b.md''] \<and>
   disk (NoteMoveAndRenameTool_updateLinksInVault ''/vault'' threeNotesTree
           ''foo.md'' ''baz.md'' threeNotes) ''/vault/c.md''
     = Some ''[[foo]]''"
  by (simp add: NoteMoveAndRenameTool_updateLinksInVault_def listMarkdownFiles_def
        fs_readFile_def fs_writeFile_def logged_def newAccesses_def
        emptyWorld_def threeNotes_def threeNotesTree_def
        path_join_def normalize_def normalizeString_def normalizeStep_def Let_def
        endsWithMd_def toLowerCase_def toLowerChar_def upperCaseChars_def lowerCaseChars_def
        pathToWikiLink_def stripMd_def isWhitespace_def matchNoteLink_def notBracket_def)

text \<open>
  C8, amended. Take a cascade of a note move or of a folder move, with an old identifier
  free of the metacharacters of regular expressions and a new one free of \<open>$\<close>, over a
  listing that names each file once, and a document of the listing (\<open>cascadeEffect\<close>):

  \<^item> a write of the document is attempted only if the rewrite changes its text;

  \<^item> a document whose text the rewrite leaves as it is keeps its text, and with it its
    frontmatter and its \<open>modified\<close> timestamp;

  \<^item> the document holds its old text or the rewritten text;

  \<^item> a document whose text the rewrite changes is written, with the rewritten text,
    when the loop reaches it: when the document and the files listed before it can be
    read and written;

  \<^item> the cascade reads no clock and serializes no frontmatter.
\<close>

theorem C8_written_only_when_changed:
  assumes "literalPattern (pathToWikiLink oldPath)"
    and "literalReplacement (pathToWikiLink newPath)"
    and "getAllMarkdownFiles vaultPath tree = Inr (pre @ doc # post)"
    and "distinct (pre @ doc # post)"
    and "disk w doc = Some content"
  shows "cascadeEffect w (pre @ [doc]) doc content
           (replaceNoteLinks (pathToWikiLink oldPath) (pathToWikiLink newPath) content)
           (NoteMoveAndRenameTool_updateLinksInVault vaultPath tree oldPath newPath w) \<and>
         cascadeEffect w (pre @ [doc]) doc content
           (replaceFolderLinks (pathToWikiLink oldPath) (pathToWikiLink newPath) content)
           (FolderOperationTool_updateLinksInVault vaultPath tree oldPath newPath w)"
proof -
  define w0 where "w0 = snd (listMarkdownFiles vaultPath tree w)"
  have l: "listMarkdownFiles vaultPath tree w = (Inr (pre @ doc # post), w0)"
    using assms(3) listMarkdownFiles_eq [of vaultPath tree w] by (simp add: w0_def)
  have w0: "disk w0 = disk w" "fails w0 = fails w" "ticks w0 = ticks w"
    "serialized w0 = serialized w" "accesses w0 = accesses w @ readdirCalls vaultPath tree"
    "WriteFile doc \<notin> set (readdirCalls vaultPath tree)"
    by (simp_all add: w0_def)
  show ?thesis
    using rewriteFiles_cascadeEffect [OF assms(4,5) w0] l
    by (simp add: NoteMoveAndRenameTool_updateLinksInVault_def
          FolderOperationTool_updateLinksInVault_def)
qed

theorem C8_written_only_when_changed_witness:
  "literalPattern (pathToWikiLink ''a/b.md'') \<and> literalReplacement (pathToWikiLink ''c/d.md'') \<and>
   getAllMarkdownFiles ''/vault'' (DirEntry [(''m.md'', FileEntry), (''n.md'', FileEntry)])
     = Inr ([''/vault/m.md''] @ ''/vault/n.md'' # []) \<and>
   distinct ([''/vault/m.md''] @ ''/vault/n.md'' # []) \<and>
   disk (emptyWorld\<lparr>disk := [''/vault/n.md'' \<mapsto> ''[[a/b]]'', ''/vault/m.md'' \<mapsto> ''plain'']\<rparr>)
     ''/vault/n.md'' = Some ''[[a/b]]'' \<and>
   replaceNoteLinks (pathToWikiLink ''a/b.md'') (pathToWikiLink ''c/d.md'') ''[[a/b]]'' = ''[[c/d]]'' \<and>
   newAccesses
     (emptyWorld\<lparr>disk := [''/vault/n.md'' \<mapsto> ''[[a/b]]'', ''/vault/m.md'' \<mapsto> ''plain'']\<rparr>)
     (NoteMoveAndRenameTool_updateLinksInVault ''/vault''
        (DirEntry [(''m.md'', FileEntry), (''n.md'', FileEntry)]) ''a/b.md'' ''c/d.md''
        (emptyWorld\<lparr>disk := [''/vault/n.md'' \<mapsto> ''[[a/b]]'', ''/vault/m.md'' \<mapsto> ''plain'']\<rparr>))
     = [Readdir ''/vault'', ReadFile ''/vault/m.md'', ReadFile ''/vault/n.md'',
        WriteFile ''/vault/n.md''] \<and>
   map (disk (NoteMoveAndRenameTool_updateLinksInVault ''/vault''
        (DirEntry [(''m.md'', FileEntry), (''n.md'', FileEntry)]) ''a/b.md'' ''c/d.md''
        (emptyWorld\<lparr>disk := [''/vault/n.md'' \<mapsto> ''[[a/b]]'', ''/vault/m.md'' \<mapsto> ''plain'']\<rparr>)))
     [''/vault/m.md'', ''/vault/n.md''] = [Some ''plain'', Some ''[[c/d]]''] \<and>
   cascadeEffect
     (emptyWorld\<lparr>disk := [''/vault/n.md'' \<mapsto> ''[[a/b]]'', ''/vault/m.md'' \<mapsto> ''plain'']\<rparr>)
     ([''/vault/m.md''] @ [''/vault/n.md'']) ''/vault/n.md'' ''[[a/b]]'' ''[[c/d]]''
     (NoteMoveAndRenameTool_updateLinksInVault ''/vault''
        (DirEntry [(''m.md'', FileEntry), (''n.md'', FileEntry)]) ''a/b.md'' ''c/d.md''
        (emptyWorld\<lparr>disk := [''/vault/n.md'' \<mapsto> ''[[a/b]]'', ''/vault/m.md'' \<mapsto> ''plain'']\<rparr>))"
  using C8_written_only_when_changed
    [of "''a/b.md''" "''c/d.md''" "''/vault''"
        "DirEntry [(''m.md'', FileEntry), (''n.md'', FileEntry)]"
        "[''/vault/m.md'']" "''/vault/n.md''" "[]"
        "emptyWorld\<lparr>disk := [''/vault/n.md'' \<mapsto> ''[[a/b]]'', ''/vault/m.md'' \<mapsto> ''plain'']\<rparr>"
        "''[[a/b]]''"]
  by (simp add: NoteMoveAndRenameTool_updateLinksInVault_def listMarkdownFiles_def
        path_join_def normalize_def
        normalizeString_def normalizeStep_def endsWithMd_def toLowerCase_def toLowerChar_def upperCaseChars_def lowerCaseChars_def
        pathToWikiLink_def stripMd_def isWhitespace_def fs_readFile_def fs_writeFile_def
        logged_def emptyWorld_def matchNoteLink_def notBracket_def newAccesses_def Let_def
        literalPattern_def literalReplacement_def)

section \<open>C9: the \<open>modified\<close> timestamps and the tags of the notes written\<close>




section \<open>C10: creating a note where one exists\<close>

lemma loadTemplate_newContent:
  assumes "disk w1 = disk w" "fails w1 = fails w"
  shows "loadTemplate vaultPath (c_template params)
           (case c_content params of Some c \<Rightarrow> c | None \<Rightarrow> []) w1
         = (newContent vaultPath params w,
            w1\<lparr>accesses := accesses w1 @
                 (case c_template params of
                    None \<Rightarrow> []
                  | Some name \<Rightarrow>
                      if name = [] then [] else [ReadFile (templatePath vaultPath name)])\<rparr>)"
proof (cases "c_template params")
  case None
  then show ?thesis by (simp add: loadTemplate_def newContent_def)
next
  case (Some name)
  show ?thesis
  proof (cases "name = []")
    case True
    then show ?thesis using Some by (simp add: loadTemplate_def newContent_def)
  next
    case False
    then show ?thesis using Some assms
      by (cases "disk w (templatePath vaultPath name)")
         (simp_all add: loadTemplate_def newContent_def templatePath_def fs_readFile_def
            logged_def)
  qed
qed

text \<open>
  C10: when the file a new note goes to exists already, creating the note succeeds, as
  long as the folder can be made, the file can be written, and \<open>matter.stringify\<close>
  gives a text for the new note. The note returned and the file are made of the new
  values alone: the content is the text of the template when one is named and can be
  read, and the content given otherwise (\<open>newContent\<close>); the frontmatter has the keys of
  the frontmatter given and \<open>title\<close>, \<open>tags\<close>, \<open>created\<close>, \<open>modified\<close>, with the title
  and tags given and two readings of the clock (\<open>newFrontmatter\<close>); the file holds what
  \<open>matter.stringify\<close> makes of the two, and no other file changes. What was in the
  file plays no part. The tool does not look whether the file exists: its calls are
  \<open>mkdir\<close> on the folder, the read of the template when one is named, and the write.
  The frontmatter given is an object: it has each key once.
\<close>

theorem C10_create_overwrites:
  assumes "disk w (createdPath vaultPath params) = Some existing"
    and "Mkdir (path_join [vaultPath, (case c_folder params of Some f \<Rightarrow> f | None \<Rightarrow> [])])
           \<notin> fails w"
    and "WriteFile (createdPath vaultPath params) \<notin> fails w"
    and "distinct (map fst (case c_frontmatter params of Some fm \<Rightarrow> fm | None \<Rightarrow> []))"
    and "stringify gm (newContent vaultPath params w)
           (newFrontmatter params (clock w (ticks w)) (clock w (Suc (ticks w)))) = Inr text'"
  shows "\<exists>w'. NoteCreationTool_execute gm vaultPath params w
                 = (Inr \<lparr> n_path = createdPath vaultPath params,
                          n_title = Str (c_title params),
                          n_content = newContent vaultPath params w,
                          n_frontmatter = newFrontmatter params (clock w (ticks w))
                                            (clock w (Suc (ticks w))),
                          n_tags = Arr (case c_tags params of Some ts \<Rightarrow> ts | None \<Rightarrow> []),
                          n_created = Str (clock w (ticks w)),
                          n_modified = Str (clock w (Suc (ticks w))) \<rparr>, w') \<and>
              disk w' = (disk w)(createdPath vaultPath params \<mapsto> text') \<and>
              newAccesses w w'
                = [Mkdir (path_join [vaultPath,
                            (case c_folder params of Some f \<Rightarrow> f | None \<Rightarrow> [])])] @
                  (case c_template params of
                     None \<Rightarrow> []
                   | Some name \<Rightarrow>
                       if name = [] then [] else [ReadFile (templatePath vaultPath name)]) @
                  [WriteFile (createdPath vaultPath params)] \<and>
              newlySerialized w w'
                = [(createdPath vaultPath params,
                    newFrontmatter params (clock w (ticks w)) (clock w (Suc (ticks w))))] \<and>
              ticks w' = Suc (Suc (ticks w)) \<and> clock w' = clock w \<and> fails w' = fails w"
proof -
  let ?folder = "path_join [vaultPath, (case c_folder params of Some f \<Rightarrow> f | None \<Rightarrow> [])]"
  let ?p = "createdPath vaultPath params"
  let ?content = "(case c_content params of Some c \<Rightarrow> c | None \<Rightarrow> [])"
  let ?tags = "(case c_tags params of Some ts \<Rightarrow> ts | None \<Rightarrow> [])"
  let ?reads = "(case c_template params of
                   None \<Rightarrow> []
                 | Some name \<Rightarrow>
                     if name = [] then [] else [ReadFile (templatePath vaultPath name)])"
  let ?body = "newContent vaultPath params w"
  let ?fm = "newFrontmatter params (clock w (ticks w)) (clock w (Suc (ticks w)))"
  define w1 where "w1 = logged (Mkdir ?folder) w"
  define w2 where "w2 = w1\<lparr>accesses := accesses w1 @ ?reads\<rparr>"
  define w4 where "w4 = w2\<lparr>ticks := Suc (Suc (ticks w))\<rparr>"
  define w5 where "w5 = (logged (WriteFile ?p) (w4\<lparr>disk := (disk w4)(?p \<mapsto> text')\<rparr>))
                          \<lparr>serialized := serialized w4 @ [(?p, ?fm)]\<rparr>"
  have mk: "fs_mkdir ?folder w = (Inr (), w1)"
    using assms(2) by (simp add: fs_mkdir_def w1_def)
  have ld: "loadTemplate vaultPath (c_template params) ?content w1 = (?body, w2)"
    unfolding w2_def by (rule loadTemplate_newContent) (simp_all add: w1_def)
  have nd: "newDate w2 = (clock w (ticks w), w2\<lparr>ticks := Suc (ticks w)\<rparr>)"
    "newDate (w2\<lparr>ticks := Suc (ticks w)\<rparr>) = (clock w (Suc (ticks w)), w4)"
    by (simp_all add: newDate_def w4_def w2_def w1_def)
  have fm: "setKey ''modified'' (Str (clock w (Suc (ticks w))))
              (setKey ''created'' (Str (clock w (ticks w)))
                 (setKey ''tags'' (Arr ?tags)
                    (setKey ''title'' (Str (c_title params))
                       (spread [] (case c_frontmatter params of Some fm \<Rightarrow> fm | None \<Rightarrow> [])))))
            = ?fm"
    by (rule created_frontmatter [OF assms(4) refl])
  have wn: "writeNote gm ?p ?body ?fm w4 = (Inr (), w5)"
    using assms(3,5) by (simp add: writeNote_def fs_writeFile_def w5_def w4_def w2_def w1_def)
  have ex: "NoteCreationTool_execute gm vaultPath params w
              = (Inr \<lparr> n_path = ?p, n_title = Str (c_title params), n_content = ?body,
                       n_frontmatter = ?fm, n_tags = Arr ?tags,
                       n_created = Str (clock w (ticks w)),
                       n_modified = Str (clock w (Suc (ticks w))) \<rparr>, w5)"
    unfolding NoteCreationTool_execute_def Let_def
    by (simp add: mk ld nd fm wn [unfolded createdPath_def] rethrow_def createdPath_def)
  have "disk w5 = (disk w)(?p \<mapsto> text')"
    by (simp add: w5_def w4_def w2_def w1_def)
  moreover have "newAccesses w w5 = [Mkdir ?folder] @ ?reads @ [WriteFile ?p]"
    by (rule newAccesses_append) (simp add: w5_def w4_def w2_def w1_def)
  moreover have "newlySerialized w w5 = [(?p, ?fm)]"
    by (simp add: newlySerialized_def w5_def w4_def w2_def w1_def)
  moreover have "ticks w5 = Suc (Suc (ticks w))" "clock w5 = clock w" "fails w5 = fails w"
    by (simp_all add: w5_def w4_def w2_def w1_def)
  ultimately show ?thesis using ex by blast
qed

theorem C10_create_overwrites_witness:
  "createdPath ''/vault''
     \<lparr> c_title = ''My Idea!'', c_content = Some ''text'', c_template = Some ''daily'',
        c_tags = Some [''draft''], c_folder = Some ''ideas'',
        c_frontmatter = Some [(''author'', Str ''me''), (''title'', Str ''old title'')] \<rparr>
     = ''/vault/ideas/my-idea.md'' \<and>
   disk (emptyWorld\<lparr>disk := [''/vault/ideas/my-idea.md'' \<mapsto> ''old,stuff'',
                              ''/vault/_templates/daily'' \<mapsto> ''Daily note'']\<rparr>) ''/vault/ideas/my-idea.md'' = Some ''old,stuff'' \<and>
   distinct (map fst [(''author'', Str ''me''), (''title'', Str ''old title'')]) \<and>
   newContent ''/vault''
     \<lparr> c_title = ''My Idea!'', c_content = Some ''text'', c_template = Some ''daily'',
        c_tags = Some [''draft''], c_folder = Some ''ideas'',
        c_frontmatter = Some [(''author'', Str ''me''), (''title'', Str ''old title'')] \<rparr>
     (emptyWorld\<lparr>disk := [''/vault/ideas/my-idea.md'' \<mapsto> ''old,stuff'',
                              ''/vault/_templates/daily'' \<mapsto> ''Daily note'']\<rparr>) = ''Daily note'' \<and>
   newFrontmatter
     \<lparr> c_title = ''My Idea!'', c_content = Some ''text'', c_template = Some ''daily'',
        c_tags = Some [''draft''], c_folder = Some ''ideas'',
        c_frontmatter = Some [(''author'', Str ''me''), (''title'', Str ''old title'')] \<rparr> ''t0'' ''t1''
     = [(''author'', Str ''me''), (''title'', Str ''My Idea!''), (''tags'', Arr [''draft'']),
        (''created'', Str ''t0''), (''modified'', Str ''t1'')] \<and>
   stringify tagListCodec ''Daily note''
     [(''author'', Str ''me''), (''title'', Str ''My Idea!''), (''tags'', Arr [''draft'']),
      (''created'', Str ''t0''), (''modified'', Str ''t1'')] = Inr ''draft'' \<and>
   fst (NoteCreationTool_execute tagListCodec ''/vault''
          \<lparr> c_title = ''My Idea!'', c_content = Some ''text'', c_template = Some ''daily'',
        c_tags = Some [''draft''], c_folder = Some ''ideas'',
        c_frontmatter = Some [(''author'', Str ''me''), (''title'', Str ''old title'')] \<rparr>
          (emptyWorld\<lparr>disk := [''/vault/ideas/my-idea.md'' \<mapsto> ''old,stuff'',
                              ''/vault/_templates/daily'' \<mapsto> ''Daily note'']\<rparr>))
     = Inr \<lparr> n_path = ''/vault/ideas/my-idea.md'', n_title = Str ''My Idea!'',
             n_content = ''Daily note'',
             n_frontmatter = [(''author'', Str ''me''), (''title'', Str ''My Idea!''),
                              (''tags'', Arr [''draft'']),
                              (''created'', Str ''t0''), (''modified'', Str ''t1'')],
             n_tags = Arr [''draft''], n_created = Str ''t0'', n_modified = Str ''t1'' \<rparr> \<and>
   disk (snd (NoteCreationTool_execute tagListCodec ''/vault''
          \<lparr> c_title = ''My Idea!'', c_content = Some ''text'', c_template = Some ''daily'',
        c_tags = Some [''draft''], c_folder = Some ''ideas'',
        c_frontmatter = Some [(''author'', Str ''me''), (''title'', Str ''old title'')] \<rparr>
          (emptyWorld\<lparr>disk := [''/vault/ideas/my-idea.md'' \<mapsto> ''old,stuff'',
                              ''/vault/_templates/daily'' \<mapsto> ''Daily note'']\<rparr>)))
      ''/vault/ideas/my-idea.md'' = Some ''draft'' \<and>
   newAccesses (emptyWorld\<lparr>disk := [''/vault/ideas/my-idea.md'' \<mapsto> ''old,stuff'',
                              ''/vault/_templates/daily'' \<mapsto> ''Daily note'']\<rparr>)
     (snd (NoteCreationTool_execute tagListCodec ''/vault''
          \<lparr> c_title = ''My Idea!'', c_content = Some ''text'', c_template = Some ''daily'',
        c_tags = Some [''draft''], c_folder = Some ''ideas'',
        c_frontmatter = Some [(''author'', Str ''me''), (''title'', Str ''old title'')] \<rparr>
          (emptyWorld\<lparr>disk := [''/vault/ideas/my-idea.md'' \<mapsto> ''old,stuff'',
                              ''/vault/_templates/daily'' \<mapsto> ''Daily note'']\<rparr>)))
     = [Mkdir ''/vault/ideas'', ReadFile ''/vault/_templates/daily'',
        WriteFile ''/vault/ideas/my-idea.md'']"
  (is ?facts)
proof -
  have slug: "sanitizeFilename ''My Idea!'' = ''my-idea''"
    by (simp add: sanitizeFilename_def trimDashes_def isSlugChar_def toLowerCase_def
          toLowerChar_def upperCaseChars_def lowerCaseChars_def)
  have paths: "path_join [''/vault'', ''ideas''] = ''/vault/ideas''"
    "path_join [''/vault/ideas'', ''my-idea.md''] = ''/vault/ideas/my-idea.md''"
    "path_join [''/vault'', ''_templates'', ''daily''] = ''/vault/_templates/daily''"
    by (simp_all add: path_join_def normalize_def normalizeString_def normalizeStep_def Let_def)
  have facts: ?facts
    by (simp add: NoteCreationTool_execute_def createdPath_def slug paths Let_def
          loadTemplate_def rethrow_def fs_readFile_def fs_writeFile_def fs_mkdir_def
          writeNote_def newContent_def newFrontmatter_def templatePath_def
          newDate_def logged_def emptyWorld_def tagListCodec_def tagsOf_def newAccesses_def
          getKey_def spread_def)
  show ?thesis
    using C10_create_overwrites
      [of "emptyWorld\<lparr>disk := [''/vault/ideas/my-idea.md'' \<mapsto> ''old,stuff'',
                              ''/vault/_templates/daily'' \<mapsto> ''Daily note'']\<rparr>" "''/vault''"
          "\<lparr> c_title = ''My Idea!'', c_content = Some ''text'', c_template = Some ''daily'',
        c_tags = Some [''draft''], c_folder = Some ''ideas'',
        c_frontmatter = Some [(''author'', Str ''me''), (''title'', Str ''old title'')] \<rparr>"
          "''old,stuff''" tagListCodec "''draft''"]
    by (intro facts)
qed

end
